theory Spec2Isabelle
  imports Complex_Main "HOL-Library.Sublist"
begin

section \<open>Text features of an issue (src/gfibot/data/dataset.py, lines 18-74)\<close>

text \<open>
  Python strings are modelled as \<open>string\<close>. The model covers ASCII text: a character
  is a word character (\<open>\w\<close>) when it is an ASCII letter, digit or underscore, and
  white space when Python's \<open>str.split()\<close> splits ASCII text on it. A nullable string
  (\<open>s is None\<close>) is a \<open>string option\<close>. The source's names start with an
  underscore, which an Isabelle name cannot; the underscore is dropped.
\<close>

definition is_word_char :: "char \<Rightarrow> bool" where
  "is_word_char c =
     (let n = (of_char c :: nat)
      in (48 \<le> n \<and> n \<le> 57) \<or> (65 \<le> n \<and> n \<le> 90) \<or> n = 95 \<or> (97 \<le> n \<and> n \<le> 122))"

definition is_space :: "char \<Rightarrow> bool" where
  "is_space c = (let n = (of_char c :: nat) in (9 \<le> n \<and> n \<le> 13) \<or> (28 \<le> n \<and> n \<le> 32))"

text \<open>The character class \<open>[:/\w\.]\<close> of the URL pattern \<open>http[:/\w\.]+\<close>.\<close>

definition url_char :: "char \<Rightarrow> bool" where
  "url_char c = (c = CHR '':'' \<or> c = CHR ''/'' \<or> is_word_char c \<or> c = CHR ''.'')"

text \<open>
  \<open>re.compile(r"http[:/\w\.]+").findall(s)\<close>: the scan looks for the leftmost match,
  takes the longest run of class characters after \<open>http\<close> (at least one), and goes
  on after the match.
\<close>

function findall_url :: "string \<Rightarrow> string list" where
  "findall_url [] = []"
| "findall_url (c # cs) =
     (if prefix ''http'' (c # cs) \<and> takeWhile url_char (drop 4 (c # cs)) \<noteq> []
      then (''http'' @ takeWhile url_char (drop 4 (c # cs)))
             # findall_url (dropWhile url_char (drop 4 (c # cs)))
      else findall_url cs)"
  by pat_completeness auto
termination
  by (relation "measure length")
     (auto simp: le_imp_less_Suc order.trans [OF length_dropWhile_le])

text \<open>\<open>p.sub("", s)\<close> for the same pattern: every match is removed.\<close>

function sub_url :: "string \<Rightarrow> string" where
  "sub_url [] = []"
| "sub_url (c # cs) =
     (if prefix ''http'' (c # cs) \<and> takeWhile url_char (drop 4 (c # cs)) \<noteq> []
      then sub_url (dropWhile url_char (drop 4 (c # cs)))
      else c # sub_url cs)"
  by pat_completeness auto
termination
  by (relation "measure length")
     (auto simp: le_imp_less_Suc order.trans [OF length_dropWhile_le])

definition endswith :: "string \<Rightarrow> string \<Rightarrow> bool" where
  "endswith s x = suffix x s"

definition count_urls :: "string option \<Rightarrow> nat" where
  "count_urls s =
     (case s of
        None \<Rightarrow> 0
      | Some s' \<Rightarrow>
          length (filter (\<lambda>s2. \<not> (endswith s2 ''jpg'' \<or> endswith s2 ''jpeg'' \<or> endswith s2 ''png''))
                    (findall_url s')))"

definition delete_urls :: "string option \<Rightarrow> string" where
  "delete_urls s = (case s of None \<Rightarrow> '''' | Some s' \<Rightarrow> sub_url s')"

definition count_imgs :: "string option \<Rightarrow> nat" where
  "count_imgs s =
     (case s of
        None \<Rightarrow> 0
      | Some s' \<Rightarrow>
          length (filter (\<lambda>s2. endswith s2 ''jpg'' \<or> endswith s2 ''jpeg'' \<or> endswith s2 ''png'')
                    (findall_url s')))"

text \<open>
  The pattern of a fenced code block with \<open>re.S\<close>: an opening fence of three
  backquotes, at least one character (a newline too), taken lazily (\<open>.+?\<close>), and
  the first closing fence after it. \<open>after_fence s\<close> is the text after the first
  fence of \<open>s\<close>, if there is one.
\<close>

definition fence :: string where
  "fence = [CHR 0x60, CHR 0x60, CHR 0x60]"

fun after_fence :: "string \<Rightarrow> string option" where
  "after_fence [] = None"
| "after_fence (c # cs) =
     (if prefix fence (c # cs) then Some (drop 3 (c # cs)) else after_fence cs)"

lemma after_fence_length: "after_fence s = Some r \<Longrightarrow> length r < length s"
  by (induction s) (auto split: if_splits)

text \<open>
  \<open>code_match s\<close>: the pattern matches at the start of \<open>s\<close>, and the result is the
  text after the match.
\<close>

definition code_match :: "string \<Rightarrow> string option" where
  "code_match s =
     (if prefix fence s \<and> drop 3 s \<noteq> [] then after_fence (tl (drop 3 s)) else None)"

lemma code_match_length: "code_match s = Some r \<Longrightarrow> length r < length s"
proof -
  assume m: "code_match s = Some r"
  then have "after_fence (tl (drop 3 s)) = Some r"
    by (simp add: code_match_def split: if_splits)
  then have "length r < length (tl (drop 3 s))"
    by (rule after_fence_length)
  then show ?thesis by simp
qed

function count_code :: "string \<Rightarrow> nat" where
  "count_code [] = 0"
| "count_code (c # cs) =
     (case code_match (c # cs) of
        Some r \<Rightarrow> Suc (count_code r)
      | None \<Rightarrow> count_code cs)"
  by pat_completeness auto
termination
  by (relation "measure length") (auto dest: code_match_length)

function sub_code :: "string \<Rightarrow> string" where
  "sub_code [] = []"
| "sub_code (c # cs) =
     (case code_match (c # cs) of
        Some r \<Rightarrow> sub_code r
      | None \<Rightarrow> c # sub_code cs)"
  by pat_completeness auto
termination
  by (relation "measure length") (auto dest: code_match_length)

definition count_code_snippets :: "string option \<Rightarrow> nat" where
  "count_code_snippets s = (case s of None \<Rightarrow> 0 | Some s' \<Rightarrow> count_code s')"

definition delete_code_snippets :: "string option \<Rightarrow> string" where
  "delete_code_snippets s = (case s of None \<Rightarrow> '''' | Some s' \<Rightarrow> sub_code s')"

text \<open>
  \<open>tokens p s\<close>: the maximal runs of characters of \<open>s\<close> that satisfy \<open>p\<close>, in
  order. \<open>s.split()\<close> is the runs of characters that are not white space, and
  \<open>re.compile(r"\w+").findall(s)\<close> the runs of word characters.
\<close>

function tokens :: "(char \<Rightarrow> bool) \<Rightarrow> string \<Rightarrow> string list" where
  "tokens p [] = []"
| "tokens p (c # cs) =
     (if p c then takeWhile p (c # cs) # tokens p (dropWhile p cs)
      else tokens p cs)"
  by pat_completeness auto
termination
  by (relation "measure (\<lambda>(p, s). length s)")
     (auto simp: le_imp_less_Suc length_dropWhile_le)

definition count_text_len :: "string option \<Rightarrow> nat" where
  "count_text_len s =
     (case s of None \<Rightarrow> 0 | Some s' \<Rightarrow> length (tokens (\<lambda>c. \<not> is_space c) s'))"

section \<open>The label categorizer (lines 77-149)\<close>

text \<open>
  A rule of the table is a keyword (a Python \<open>str\<close>) or a tuple of keywords.
  The table is the dictionary \<open>keyword_rules\<close>, in its order.
\<close>

datatype rule = Kw string | Tuple "string list"

definition keyword_rules :: "(string \<times> rule list) list" where
  "keyword_rules =
    [(''bug'', [Kw ''bug'']),
     (''feature'', [Kw ''feature'']),
     (''test'', [Kw ''test'', Kw ''testing'']),
     (''build'', [Kw ''ci'', Kw ''build'']),
     (''doc'', [Kw ''doc'', Kw ''document'', Kw ''documentation'']),
     (''coding'', [Kw ''code'', Kw ''coding'', Kw ''program'', Kw ''programming'']),
     (''enhance'', [Kw ''enhance'', Kw ''enhancement'']),
     (''gfi'',
        [Kw ''easy'', Kw ''starter'', Kw ''newbie'', Kw ''beginner'', Kw ''starter'',
         Kw ''minor'', Kw ''novice'',
         Tuple [''good'', ''first''], Tuple [''low'', ''fruit''], Tuple [''effort'', ''low''],
         Tuple [''first'', ''time''], Tuple [''first'', ''timer''], Tuple [''first'', ''pr''],
         Tuple [''up'', ''for'', ''grab'']]),
     (''medium'', [Kw ''medium'', Kw ''intermediate'']),
     (''major'',
        [Kw ''important'', Kw ''major'', Kw ''breaking'', Kw ''difficult'', Kw ''hard'',
         Kw ''core'', Kw ''serious'',
         Tuple [''priority'', ''p1''], Tuple [''priority'', ''high''],
         Tuple [''priority'', ''critical'']]),
     (''triaged'',
        [Kw ''triaged'', Kw ''triage'', Kw ''progress'', Kw ''haspr'', Kw ''fixed'',
         Kw ''wontfix'', Tuple [''ha'', ''pr''], Tuple [''ha'', ''fix'']]),
     (''untriaged'',
        [Kw ''untriaged'', Tuple [''need'', ''triage''], Tuple [''needed'', ''triage''],
         Tuple [''no'', ''triage'']])]"

text \<open>\<open>label.lower().replace("_", " ")\<close>, on ASCII text.\<close>

definition lower_char :: "char \<Rightarrow> char" where
  "lower_char c =
     (let n = (of_char c :: nat) in if 65 \<le> n \<and> n \<le> 90 then char_of (n + 32) else c)"

definition lower :: "string \<Rightarrow> string" where
  "lower s = map lower_char s"

definition replace_underscore :: "string \<Rightarrow> string" where
  "replace_underscore s = map (\<lambda>c. if c = CHR ''_'' then CHR '' '' else c) s"

text \<open>
  The words of a label (lines 136-137). The lemmatizer is nltk's
  \<open>WordNetLemmatizer.lemmatize\<close>, a library outside the repository: it is the
  parameter \<open>lemmatize\<close>.
\<close>

definition label_words :: "(string \<Rightarrow> string) \<Rightarrow> string \<Rightarrow> string list" where
  "label_words lemmatize label =
     map lemmatize (tokens is_word_char (replace_underscore (lower label)))"

text \<open>
  The body of \<open>for rule in rules\<close> (lines 141-147): the new value of \<open>match\<close>.
  \<open>rule in w\<close> on two strings is Python's substring test.
\<close>

fun rule_step :: "string list \<Rightarrow> nat \<Rightarrow> rule \<Rightarrow> nat" where
  "rule_step words match (Tuple rule) =
     (if list_all (\<lambda>word. word \<in> set words) rule then 1 else match)"
| "rule_step words match (Kw rule) =
     (if rule \<in> set words then 1
      else if list_ex (\<lambda>w. sublist rule w) words then 1
      else match)"

text \<open>Lines 139-147: \<open>match\<close> after the loop over the rules of one category.\<close>

definition category_match :: "string list \<Rightarrow> rule list \<Rightarrow> nat" where
  "category_match words rules = foldl (rule_step words) 0 rules"

text \<open>
  The \<open>Counter\<close> is a function from keys to counts (a missing key counts 0).
  \<open>categorize_label\<close> is the body of \<open>for label in labels\<close> (lines 136-148).
\<close>

definition categorize_label ::
  "(string \<Rightarrow> string) \<Rightarrow> (string \<Rightarrow> nat) \<Rightarrow> string \<Rightarrow> (string \<Rightarrow> nat)" where
  "categorize_label lemmatize label_cat label =
     (let words = label_words lemmatize label
      in foldl (\<lambda>lc (cat, rules). lc(cat := lc cat + category_match words rules))
           label_cat keyword_rules)"

definition label_counter :: "(string \<Rightarrow> string) \<Rightarrow> string list \<Rightarrow> (string \<Rightarrow> nat)" where
  "label_counter lemmatize labels = foldl (categorize_label lemmatize) (\<lambda>cat. 0) labels"

text \<open>
  \<open>Dataset.LabelCategory\<close>, built from the counter's keys
  (\<open>Dataset.LabelCategory(**label_cat)\<close>). With no label the counter has no key
  and the fields take the defaults of the class, which is not among the source files;
  the model takes them to be 0.
\<close>

record label_category =
  lc_bug :: nat
  lc_feature :: nat
  lc_test :: nat
  lc_build :: nat
  lc_doc :: nat
  lc_coding :: nat
  lc_enhance :: nat
  lc_gfi :: nat
  lc_medium :: nat
  lc_major :: nat
  lc_triaged :: nat
  lc_untriaged :: nat

definition get_categorized_labels :: "(string \<Rightarrow> string) \<Rightarrow> string list \<Rightarrow> label_category" where
  "get_categorized_labels lemmatize labels =
     (let label_cat = label_counter lemmatize labels
      in \<lparr>lc_bug = label_cat ''bug'', lc_feature = label_cat ''feature'',
          lc_test = label_cat ''test'', lc_build = label_cat ''build'',
          lc_doc = label_cat ''doc'', lc_coding = label_cat ''coding'',
          lc_enhance = label_cat ''enhance'', lc_gfi = label_cat ''gfi'',
          lc_medium = label_cat ''medium'', lc_major = label_cat ''major'',
          lc_triaged = label_cat ''triaged'', lc_untriaged = label_cat ''untriaged''\<rparr>)"

section \<open>The data model\<close>

text \<open>
  The document classes come from \<open>gfibot.collections\<close>, which is not among the source
  files. Modelled from the spec: the declarations of RepoCommit, RepoIssue, IssueEvent,
  ResolvedIssue, OpenIssue, Repo, Dataset, Dataset.UserFeature and DatasetBuildLog, with
  the attributes the spec's data model (section 3) lists and \<open>dataset.py\<close> reads or
  writes. A \<open>datetime\<close> is a point on an integer time line; a nullable attribute is
  an \<open>option\<close>; a float is the rational it stands for. Each record's fields carry a
  prefix, since the classes share attribute names.
\<close>

type_synonym datetime = int

record repo_commit =
  rc_owner :: string
  rc_name :: string
  rc_author :: string
  rc_committer :: string
  rc_authored_at :: datetime
  rc_committed_at :: datetime

record repo_issue =
  ri_owner :: string
  ri_name :: string
  ri_number :: int
  ri_user :: string
  ri_state :: string
  ri_created_at :: datetime
  ri_closed_at :: "datetime option"
  ri_title :: "string option"
  ri_body :: "string option"
  ri_is_pull :: bool

record issue_event =
  ev_type :: string
  ev_actor :: "string option"
  ev_time :: datetime
  ev_label :: string
  ev_comment :: string

record resolved_issue =
  rs_owner :: string
  rs_name :: string
  rs_number :: int
  rs_created_at :: datetime
  rs_resolved_at :: datetime
  rs_resolver_commit_num :: int
  rs_events :: "issue_event list"

record open_issue =
  oi_owner :: string
  oi_name :: string
  oi_number :: int
  oi_created_at :: datetime
  oi_updated_at :: datetime
  oi_events :: "issue_event list"

record month_count =
  mc_month :: datetime
  mc_count :: int

record repo =
  rp_owner :: string
  rp_name :: string
  rp_monthly_stars :: "month_count list"
  rp_monthly_pulls :: "month_count list"
  rp_monthly_commits :: "month_count list"

record user_feature =
  uf_name :: string
  uf_n_commits :: nat
  uf_n_issues :: nat
  uf_n_pulls :: nat
  uf_resolver_commits :: "int list"

record dataset =
  ds_owner :: string
  ds_name :: string
  ds_number :: int
  ds_created_at :: datetime
  ds_closed_at :: "datetime option"
  ds_before :: datetime
  ds_resolver_commit_num :: int
  ds_title :: "string option"
  ds_body :: string
  ds_len_title :: nat
  ds_len_body :: nat
  ds_n_code_snips :: nat
  ds_n_urls :: nat
  ds_n_imgs :: nat
  ds_coleman_liau_index :: rat
  ds_flesch_reading_ease :: rat
  ds_flesch_kincaid_grade :: rat
  ds_automated_readability_index :: rat
  ds_labels :: "string list"
  ds_label_category :: label_category
  ds_reporter_feat :: user_feature
  ds_owner_feat :: user_feature
  ds_prev_resolver_commits :: "int list"
  ds_n_stars :: int
  ds_n_pulls :: int
  ds_n_commits :: int
  ds_n_contributors :: nat
  ds_n_closed_issues :: nat
  ds_n_open_issues :: nat
  ds_r_open_issues :: rat
  ds_issue_close_time :: rat
  ds_comments :: "string list"
  ds_events :: "string list"
  ds_comment_users :: "user_feature list"
  ds_event_users :: "user_feature list"

record build_log =
  bl_owner :: string
  bl_name :: string
  bl_pid :: int
  bl_github_user_login :: "string option"
  bl_update_begin :: datetime
  bl_update_end :: "datetime option"
  bl_updated_open_issues :: "nat option"
  bl_updated_resolved_issues :: "nat option"

text \<open>
  \<open>Union[OpenIssue, ResolvedIssue]\<close>: \<open>isinstance(issue, ResolvedIssue)\<close> is the
  constructor.
\<close>

datatype issue = OpenIssue open_issue | ResolvedIssue resolved_issue

fun issue_owner :: "issue \<Rightarrow> string" where
  "issue_owner (OpenIssue i) = oi_owner i"
| "issue_owner (ResolvedIssue i) = rs_owner i"

fun issue_name :: "issue \<Rightarrow> string" where
  "issue_name (OpenIssue i) = oi_name i"
| "issue_name (ResolvedIssue i) = rs_name i"

fun issue_number :: "issue \<Rightarrow> int" where
  "issue_number (OpenIssue i) = oi_number i"
| "issue_number (ResolvedIssue i) = rs_number i"

fun issue_events :: "issue \<Rightarrow> issue_event list" where
  "issue_events (OpenIssue i) = oi_events i"
| "issue_events (ResolvedIssue i) = rs_events i"

text \<open>
  The logger's records, by the line that writes them: the level and the values the
  message is formatted from.
\<close>

datatype level = INFO | ERROR

datatype log_msg =
    Already_in_dataset string string int datetime
  | Pull_request string string int
  | Build_start string string int datetime
  | Build_done string string int datetime
  | No_need_to_update string string int
  | Already_being_updated string string
  | Global_update_running

text \<open>
  The state of a run: the collections of the document store, each in the order its
  queries return, and what the logger has written.
\<close>

record state =
  repo_commits :: "repo_commit list"
  repo_issues :: "repo_issue list"
  resolved_issues :: "resolved_issue list"
  open_issues :: "open_issue list"
  repos :: "repo list"
  datasets :: "dataset list"
  build_logs :: "build_log list"
  logged :: "(level \<times> log_msg) list"

text \<open>
  The libraries outside the repository that \<open>get_dataset\<close> calls: nltk's lemmatizer,
  the four readability scores of textstat, and numpy's median.
\<close>

record ext =
  lemmatize :: "string \<Rightarrow> string"
  coleman_liau_index :: "string \<Rightarrow> rat"
  flesch_reading_ease :: "string \<Rightarrow> rat"
  flesch_kincaid_grade :: "string \<Rightarrow> rat"
  automated_readability_index :: "string \<Rightarrow> rat"
  median :: "int list \<Rightarrow> rat"

text \<open>
  The exceptions of the model: comparing \<open>None\<close> with a \<open>datetime\<close> raises
  TypeError, reading an attribute of \<open>None\<close> raises AttributeError.
\<close>

datatype error = TypeError | AttributeError

section \<open>The user feature aggregator (lines 152-200)\<close>

text \<open>
  The list comprehension of lines 187-189, \<open>[i.number for i in usriss if i.state ==
  "closed" and i.closed_at <= t]\<close>: a closed issue whose \<open>closed_at\<close> is
  \<open>None\<close> raises TypeError at the comparison.
\<close>

fun closed_numbers :: "datetime \<Rightarrow> repo_issue list \<Rightarrow> error + int list" where
  "closed_numbers t [] = Inr []"
| "closed_numbers t (i # is) =
     (if ri_state i = ''closed''
      then (case ri_closed_at i of
              None \<Rightarrow> Inl TypeError
            | Some c \<Rightarrow>
                (case closed_numbers t is of
                   Inl e \<Rightarrow> Inl e
                 | Inr ns \<Rightarrow> Inr (if c \<le> t then ri_number i # ns else ns)))
      else closed_numbers t is)"

definition get_user_data ::
  "state \<Rightarrow> string \<Rightarrow> string \<Rightarrow> string \<Rightarrow> datetime \<Rightarrow> error + user_feature" where
  "get_user_data db owner name user t =
     (if user = ''ghost''
      then Inr \<lparr>uf_name = user, uf_n_commits = 0, uf_n_issues = 0, uf_n_pulls = 0,
                uf_resolver_commits = []\<rparr>
      else
        let usrcmts =
              filter (\<lambda>c. (rc_owner c = owner \<and> rc_name c = name
                             \<and> rc_authored_at c \<le> t \<and> rc_committed_at c \<le> t)
                          \<and> (rc_committer c = user
                               \<or> (rc_author c = user \<and> rc_committer c = ''web-flow'')))
                (repo_commits db);
            issue_query =
              (\<lambda>i. ri_owner i = owner \<and> ri_name i = name \<and> ri_user i = user
                    \<and> ri_created_at i \<le> t);
            usriss = filter (\<lambda>i. issue_query i \<and> ri_is_pull i = False) (repo_issues db);
            usrpulls = filter (\<lambda>i. issue_query i \<and> ri_is_pull i = True) (repo_issues db)
        in (case closed_numbers t usriss of
              Inl e \<Rightarrow> Inl e
            | Inr numbers \<Rightarrow>
                let usriss_resolved =
                      filter (\<lambda>r. rs_owner r = owner \<and> rs_name r = name
                                  \<and> rs_number r \<in> set numbers)
                        (resolved_issues db);
                    usr_revolver_cmts = map rs_resolver_commit_num usriss_resolved
                in Inr \<lparr>uf_name = user, uf_n_commits = length usrcmts,
                         uf_n_issues = length usriss, uf_n_pulls = length usrpulls,
                         uf_resolver_commits = usr_revolver_cmts\<rparr>))"

section \<open>The background aggregator (lines 203-225)\<close>

text \<open>
  The loop of lines 217-222 over \<open>all_issues\<close>, on the accumulators
  \<open>(n_closed_issues, n_open_issues, issue_close_times)\<close>; a time difference is its
  number of seconds.
\<close>

fun issue_counts ::
  "datetime \<Rightarrow> repo_issue list \<Rightarrow> nat \<times> nat \<times> int list \<Rightarrow> error + nat \<times> nat \<times> int list" where
  "issue_counts t [] acc = Inr acc"
| "issue_counts t (i # is) (n_closed_issues, n_open_issues, issue_close_times) =
     (if ri_state i = ''closed''
      then (case ri_closed_at i of
              None \<Rightarrow> Inl TypeError
            | Some c \<Rightarrow>
                if c \<le> t
                then issue_counts t is
                       (n_closed_issues + 1, n_open_issues,
                        issue_close_times @ [c - ri_created_at i])
                else issue_counts t is (n_closed_issues, n_open_issues + 1, issue_close_times))
      else issue_counts t is (n_closed_issues, n_open_issues + 1, issue_close_times))"

text \<open>
  The set \<open>contributors\<close> is the list of its members without repetition (Python
  fixes no order for a set; only its size is read).
\<close>

definition get_background_data ::
  "state \<Rightarrow> string \<Rightarrow> string \<Rightarrow> datetime \<Rightarrow> error + string list \<times> nat \<times> nat \<times> int list" where
  "get_background_data db owner name t =
     (let all_issues =
            filter (\<lambda>i. ri_owner i = owner \<and> ri_name i = name \<and> ri_is_pull i = False
                        \<and> ri_created_at i \<le> t)
              (repo_issues db);
          all_commits =
            filter (\<lambda>c. rc_owner c = owner \<and> rc_name c = name
                        \<and> rc_authored_at c \<le> t \<and> rc_committed_at c \<le> t)
              (repo_commits db)
      in (case issue_counts t all_issues (0, 0, []) of
            Inl e \<Rightarrow> Inl e
          | Inr (n_closed_issues, n_open_issues, issue_close_times) \<Rightarrow>
              Inr (remdups (concat (map (\<lambda>c. [rc_author c, rc_committer c]) all_commits)),
                   n_closed_issues, n_open_issues, issue_close_times)))"

section \<open>The dynamics replayer (lines 228-248)\<close>

text \<open>
  \<open>labels\<close> and \<open>comments\<close> are Python lists; \<open>comment_users\<close> and
  \<open>event_users\<close> are Python sets, modelled as lists without repetition in the order
  of first insertion (Python fixes no order for a set).
\<close>

definition set_add :: "'a list \<Rightarrow> 'a \<Rightarrow> 'a list" where
  "set_add xs x = (if x \<in> set xs then xs else xs @ [x])"

record dynamics =
  dy_labels :: "string list"
  dy_comments :: "string list"
  dy_comment_users :: "string list"
  dy_event_users :: "string list"

text \<open>
  The body of \<open>for event in events\<close> (lines 232-245). \<open>labels.remove(x)\<close> removes
  the first occurrence of \<open>x\<close>, which is \<open>remove1\<close>.
\<close>

definition dynamics_step :: "datetime \<Rightarrow> dynamics \<Rightarrow> issue_event \<Rightarrow> dynamics" where
  "dynamics_step t d event =
     (if ev_time event \<le> t
      then
        let d1 = (case ev_actor event of
                    None \<Rightarrow> d
                  | Some actor \<Rightarrow>
                      if actor \<noteq> ''ghost''
                      then d\<lparr>dy_event_users := set_add (dy_event_users d) actor\<rparr>
                      else d)
        in if ev_type event = ''labeled''
           then d1\<lparr>dy_labels := dy_labels d1 @ [ev_label event]\<rparr>
           else if ev_type event = ''unlabeled''
           then (if ev_label event \<in> set (dy_labels d1)
                 then d1\<lparr>dy_labels := remove1 (ev_label event) (dy_labels d1)\<rparr>
                 else d1)
           else if ev_type event = ''commented''
           then
             let d2 = d1\<lparr>dy_comments := dy_comments d1 @ [ev_comment event]\<rparr>
             in (case ev_actor event of
                   None \<Rightarrow> d2
                 | Some actor \<Rightarrow>
                     if actor \<noteq> ''ghost''
                     then d2\<lparr>dy_comment_users := set_add (dy_comment_users d2) actor\<rparr>
                     else d2)
           else d1
      else d)"

definition replay :: "issue_event list \<Rightarrow> datetime \<Rightarrow> dynamics" where
  "replay events t =
     foldl (dynamics_step t)
       \<lparr>dy_labels = [], dy_comments = [], dy_comment_users = [], dy_event_users = []\<rparr> events"

text \<open>
  The comprehensions of lines 246-247: \<open>_get_user_data\<close> for each user, in order;
  the first exception ends them.
\<close>

fun user_features ::
  "state \<Rightarrow> string \<Rightarrow> string \<Rightarrow> datetime \<Rightarrow> string list \<Rightarrow> error + user_feature list" where
  "user_features db owner name t [] = Inr []"
| "user_features db owner name t (user # users) =
     (case get_user_data db owner name user t of
        Inl e \<Rightarrow> Inl e
      | Inr f \<Rightarrow>
          (case user_features db owner name t users of
             Inl e \<Rightarrow> Inl e
           | Inr fs \<Rightarrow> Inr (f # fs)))"

definition get_dynamics_data ::
  "state \<Rightarrow> string \<Rightarrow> string \<Rightarrow> issue_event list \<Rightarrow> datetime
     \<Rightarrow> error + string list \<times> string list \<times> user_feature list \<times> user_feature list" where
  "get_dynamics_data db owner name events t =
     (let d = replay events t
      in (case user_features db owner name t (dy_comment_users d) of
            Inl e \<Rightarrow> Inl e
          | Inr comment_users' \<Rightarrow>
              (case user_features db owner name t (dy_event_users d) of
                 Inl e \<Rightarrow> Inl e
               | Inr event_users' \<Rightarrow>
                   Inr (dy_labels d, dy_comments d, comment_users', event_users'))))"

section \<open>The snapshot builder (lines 251-337)\<close>

text \<open>
  Lines 272-333: the record \<open>data\<close> that \<open>get_dataset\<close> composes for an issue that
  is not a pull request. It reads the store and writes nothing. The exceptions are in
  the order of the source: the aggregators' TypeError first, AttributeError where
  \<open>repo\<close> is \<open>None\<close> (line 320).
\<close>

definition build_dataset ::
  "ext \<Rightarrow> state \<Rightarrow> issue \<Rightarrow> datetime \<Rightarrow> repo_issue \<Rightarrow> error + dataset" where
  "build_dataset x db issue before repo_issue =
     (let repo = find (\<lambda>r. rp_owner r = issue_owner issue \<and> rp_name r = issue_name issue)
                   (repos db)
      in (case get_background_data db (issue_owner issue) (issue_name issue) before of
            Inl e \<Rightarrow> Inl e
          | Inr (contribs, n_closed, n_open, close_times) \<Rightarrow>
      let prev_resolver_commits =
            map rs_resolver_commit_num
              (filter (\<lambda>r. rs_name r = issue_name issue \<and> rs_owner r = issue_owner issue
                          \<and> rs_resolved_at r \<le> before)
                 (resolved_issues db))
      in (case get_dynamics_data db (issue_owner issue) (issue_name issue)
                 (issue_events issue) before of
            Inl e \<Rightarrow> Inl e
          | Inr (labels, comments, comment_users, event_users) \<Rightarrow>
      let clean_body = delete_urls (Some (delete_code_snippets (ri_body repo_issue)))
      in (case get_user_data db (issue_owner issue) (issue_name issue)
                 (ri_user repo_issue) before of
            Inl e \<Rightarrow> Inl e
          | Inr reporter_feat \<Rightarrow>
         (case get_user_data db (issue_owner issue) (issue_name issue)
                 (issue_owner issue) before of
            Inl e \<Rightarrow> Inl e
          | Inr owner_feat \<Rightarrow>
         (case repo of
            None \<Rightarrow> Inl AttributeError
          | Some repo' \<Rightarrow>
              Inr \<lparr>ds_owner = issue_owner issue,
                   ds_name = issue_name issue,
                   ds_number = issue_number issue,
                   ds_created_at = ri_created_at repo_issue,
                   ds_closed_at = ri_closed_at repo_issue,
                   ds_before = before,
                   ds_resolver_commit_num =
                     (case issue of
                        ResolvedIssue r \<Rightarrow> rs_resolver_commit_num r
                      | OpenIssue _ \<Rightarrow> - 1),
                   ds_title = ri_title repo_issue,
                   ds_body = clean_body,
                   ds_len_title = count_text_len (ri_title repo_issue),
                   ds_len_body = count_text_len (Some clean_body),
                   ds_n_code_snips = count_code_snippets (ri_body repo_issue),
                   ds_n_urls = count_urls (ri_body repo_issue),
                   ds_n_imgs = count_imgs (ri_body repo_issue),
                   ds_coleman_liau_index = coleman_liau_index x clean_body,
                   ds_flesch_reading_ease = flesch_reading_ease x clean_body,
                   ds_flesch_kincaid_grade = flesch_kincaid_grade x clean_body,
                   ds_automated_readability_index = automated_readability_index x clean_body,
                   ds_labels = labels,
                   ds_label_category = get_categorized_labels (lemmatize x) labels,
                   ds_reporter_feat = reporter_feat,
                   ds_owner_feat = owner_feat,
                   ds_prev_resolver_commits = prev_resolver_commits,
                   ds_n_stars =
                     sum_list (map mc_count
                       (filter (\<lambda>m. mc_month m \<le> before) (rp_monthly_stars repo'))),
                   ds_n_pulls =
                     sum_list (map mc_count
                       (filter (\<lambda>m. mc_month m \<le> before) (rp_monthly_pulls repo'))),
                   ds_n_commits =
                     sum_list (map mc_count
                       (filter (\<lambda>m. mc_month m \<le> before) (rp_monthly_commits repo'))),
                   ds_n_contributors = length contribs,
                   ds_n_closed_issues = n_closed,
                   ds_n_open_issues = n_open,
                   ds_r_open_issues =
                     (if n_open + n_closed > 0
                      then of_nat n_open / of_nat (n_open + n_closed) else 0),
                   ds_issue_close_time =
                     (if length close_times > 0 then median x close_times else 0),
                   ds_comments = comments,
                   ds_events =
                     map ev_type (filter (\<lambda>e. ev_time e < before) (issue_events issue)),
                   ds_comment_users = comment_users,
                   ds_event_users = event_users\<rparr>))))))"

text \<open>
  \<open>get_dataset\<close>: the outcome (an exception, or the returned record, \<open>None\<close> for
  a bare \<open>return\<close>) and the state it leaves. \<open>data.save()\<close> appends the record
  to the Dataset collection.
\<close>

definition get_dataset ::
  "ext \<Rightarrow> issue \<Rightarrow> datetime \<Rightarrow> state \<Rightarrow> (error + dataset option) \<times> state" where
  "get_dataset x issue before s =
     (let query = (\<lambda>d. ds_owner d = issue_owner issue \<and> ds_name d = issue_name issue
                       \<and> ds_number d = issue_number issue);
          s1 = (case issue of
                  ResolvedIssue _ \<Rightarrow>
                    s\<lparr>datasets :=
                        filter (\<lambda>d. \<not> (query d \<and> ds_resolver_commit_num d = - 1))
                          (datasets s)\<rparr>
                | OpenIssue _ \<Rightarrow> s);
          existing = filter (\<lambda>d. query d \<and> ds_before d = before) (datasets s1)
      in (case existing of
            d # _ \<Rightarrow>
              (Inr (Some d),
               s1\<lparr>logged := logged s1 @
                     [(INFO, Already_in_dataset (issue_owner issue) (issue_name issue)
                               (issue_number issue) before)]\<rparr>)
          | [] \<Rightarrow>
              (case find (\<lambda>i. ri_owner i = issue_owner issue \<and> ri_name i = issue_name issue
                              \<and> ri_number i = issue_number issue)
                      (repo_issues s1) of
                 None \<Rightarrow> (Inl AttributeError, s1)
               | Some repo_issue \<Rightarrow>
                   if ri_is_pull repo_issue = True
                   then (Inr None,
                         s1\<lparr>logged := logged s1 @
                               [(ERROR, Pull_request (issue_owner issue) (issue_name issue)
                                          (issue_number issue))]\<rparr>)
                   else
                     let s2 = s1\<lparr>logged := logged s1 @
                                    [(INFO, Build_start (issue_owner issue) (issue_name issue)
                                              (issue_number issue) before)]\<rparr>
                     in (case build_dataset x s2 issue before repo_issue of
                           Inl e \<Rightarrow> (Inl e, s2)
                         | Inr data \<Rightarrow>
                             (Inr (Some data),
                              s2\<lparr>datasets := datasets s2 @ [data],
                                  logged := logged s2 @
                                    [(INFO, Build_done (issue_owner issue) (issue_name issue)
                                              (issue_number issue) before)]\<rparr>)))))"

section \<open>The incremental update orchestrator (lines 340-419)\<close>

text \<open>
  Lines 343-345, the loop over the resolved issues. An exception of \<open>get_dataset\<close>
  ends the run; its return value is not read.
\<close>

fun resolved_loop :: "ext \<Rightarrow> resolved_issue list \<Rightarrow> state \<Rightarrow> (error + unit) \<times> state" where
  "resolved_loop x [] s = (Inr (), s)"
| "resolved_loop x (i # is) s =
     (case get_dataset x (ResolvedIssue i) (rs_created_at i) s of
        (Inl e, s1) \<Rightarrow> (Inl e, s1)
      | (Inr _, s1) \<Rightarrow>
          (case get_dataset x (ResolvedIssue i) (rs_resolved_at i) s1 of
             (Inl e, s2) \<Rightarrow> (Inl e, s2)
           | (Inr _, s2) \<Rightarrow> resolved_loop x is s2))"

text \<open>Lines 347-358, the loop over the open issues.\<close>

fun open_loop :: "ext \<Rightarrow> open_issue list \<Rightarrow> state \<Rightarrow> (error + unit) \<times> state" where
  "open_loop x [] s = (Inr (), s)"
| "open_loop x (i # is) s =
     (let last_updated =
            (case oi_events i of
               [] \<Rightarrow> oi_created_at i
             | e # es \<Rightarrow> fold max (map ev_time es) (ev_time e));
          existing =
            filter (\<lambda>d. ds_name d = oi_name i \<and> ds_owner d = oi_owner i
                        \<and> ds_number d = oi_number i)
              (datasets s)
      in (case existing of
            d # _ \<Rightarrow>
              if ds_before d \<ge> last_updated
              then open_loop x is
                     (s\<lparr>logged := logged s @
                          [(INFO, No_need_to_update (oi_owner i) (oi_name i) (oi_number i))]\<rparr>)
              else (case get_dataset x (OpenIssue i) (oi_updated_at i) s of
                      (Inl e, s1) \<Rightarrow> (Inl e, s1)
                    | (Inr _, s1) \<Rightarrow> open_loop x is s1)
          | [] \<Rightarrow>
              (case get_dataset x (OpenIssue i) (oi_updated_at i) s of
                 (Inl e, s1) \<Rightarrow> (Inl e, s1)
               | (Inr _, s1) \<Rightarrow> open_loop x is s1)))"

definition get_dataset_with_issues ::
  "ext \<Rightarrow> resolved_issue list \<Rightarrow> open_issue list \<Rightarrow> state \<Rightarrow> (error + unit) \<times> state" where
  "get_dataset_with_issues x resolved_issues' open_issues' s =
     (case resolved_loop x resolved_issues' s of
        (Inl e, s1) \<Rightarrow> (Inl e, s1)
      | (Inr _, s1) \<Rightarrow> open_loop x open_issues' s1)"

text \<open>
  Modelled from the spec: \<open>log_exists\<close> of \<open>gfibot.collections\<close>, which is not among
  the source files. The spec (sections 3 and 4.7): a BuildLog is active while its end
  time is unset, and a run refuses to start if an active BuildLog exists for its key.
\<close>

definition log_exists :: "string \<Rightarrow> string \<Rightarrow> state \<Rightarrow> bool" where
  "log_exists owner name s =
     list_ex (\<lambda>l. bl_owner l = owner \<and> bl_name l = name \<and> bl_update_end l = None)
       (build_logs s)"

text \<open>
  The two entry points. \<open>os.getpid()\<close> and the two readings of
  \<open>datetime.utcnow()\<close> are the parameters \<open>pid\<close>, \<open>now_begin\<close> and
  \<open>now_end\<close>. The first \<open>log.save()\<close> appends the record to the BuildLog
  collection; the second writes the same document again, at its place. The empty
  string of the global key is the empty list \<open>[]\<close>.
\<close>

definition get_dataset_for_repo ::
  "ext \<Rightarrow> int \<Rightarrow> datetime \<Rightarrow> datetime \<Rightarrow> string \<Rightarrow> string \<Rightarrow> datetime \<Rightarrow> string option
     \<Rightarrow> state \<Rightarrow> (error + unit) \<times> state" where
  "get_dataset_for_repo x pid now_begin now_end owner name since github_login s =
     (if log_exists owner name s
      then (Inr (), s\<lparr>logged := logged s @ [(INFO, Already_being_updated owner name)]\<rparr>)
      else
        let log = \<lparr>bl_owner = owner, bl_name = name, bl_pid = pid,
                   bl_github_user_login = github_login, bl_update_begin = now_begin,
                   bl_update_end = None, bl_updated_open_issues = None,
                   bl_updated_resolved_issues = None\<rparr>;
            s1 = s\<lparr>build_logs := build_logs s @ [log]\<rparr>;
            resolved_issues' =
              filter (\<lambda>r. (rs_owner r = owner \<and> rs_name r = name) \<and> rs_resolved_at r \<ge> since)
                (resolved_issues s1);
            open_issues' =
              filter (\<lambda>i. (oi_owner i = owner \<and> oi_name i = name) \<and> oi_updated_at i \<ge> since)
                (open_issues s1)
        in (case get_dataset_with_issues x resolved_issues' open_issues' s1 of
              (Inl e, s2) \<Rightarrow> (Inl e, s2)
            | (Inr _, s2) \<Rightarrow>
                (Inr (),
                 s2\<lparr>build_logs := (build_logs s2)
                      [length (build_logs s) :=
                         log\<lparr>bl_updated_open_issues := Some (length open_issues'),
                             bl_updated_resolved_issues := Some (length resolved_issues'),
                             bl_update_end := Some now_end\<rparr>]\<rparr>)))"

definition get_dataset_all ::
  "ext \<Rightarrow> int \<Rightarrow> datetime \<Rightarrow> datetime \<Rightarrow> datetime option \<Rightarrow> state \<Rightarrow> (error + unit) \<times> state" where
  "get_dataset_all x pid now_begin now_end since s =
     (if log_exists [] [] s
      then (Inr (), s\<lparr>logged := logged s @ [(INFO, Global_update_running)]\<rparr>)
      else
        let log = \<lparr>bl_owner = [], bl_name = [], bl_pid = pid,
                   bl_github_user_login = None, bl_update_begin = now_begin,
                   bl_update_end = None, bl_updated_open_issues = None,
                   bl_updated_resolved_issues = None\<rparr>;
            s1 = s\<lparr>build_logs := build_logs s @ [log]\<rparr>;
            resolved_issues' =
              (case since of
                 None \<Rightarrow> resolved_issues s1
               | Some since' \<Rightarrow> filter (\<lambda>r. rs_resolved_at r \<ge> since') (resolved_issues s1));
            open_issues' =
              (case since of
                 None \<Rightarrow> open_issues s1
               | Some since' \<Rightarrow> filter (\<lambda>i. oi_updated_at i \<ge> since') (open_issues s1))
        in (case get_dataset_with_issues x resolved_issues' open_issues' s1 of
              (Inl e, s2) \<Rightarrow> (Inl e, s2)
            | (Inr _, s2) \<Rightarrow>
                (Inr (),
                 s2\<lparr>build_logs := (build_logs s2)
                      [length (build_logs s) :=
                         log\<lparr>bl_updated_open_issues := Some (length open_issues'),
                             bl_updated_resolved_issues := Some (length resolved_issues'),
                             bl_update_end := Some now_end\<rparr>]\<rparr>)))"

section \<open>Notions of the snapshot builder's claims\<close>

text \<open>
  The queries of \<open>get_dataset\<close>, named so that the claims can speak of them:
  \<open>snapshot_of\<close> is the query \<open>Q(owner, name, number)\<close> of line 253 on a Dataset
  record, \<open>purged\<close> is the Dataset collection after the deletion of lines 255-256,
  \<open>canonical\<close> is the record \<open>RepoIssue.objects(query).first()\<close> of line 265, and
  an issue is \<open>settled\<close> unless it is a resolved issue that itself carries the
  sentinel \<open>resolver_commit_num = -1\<close>.
\<close>

definition snapshot_of :: "issue \<Rightarrow> dataset \<Rightarrow> bool" where
  "snapshot_of issue d =
     (ds_owner d = issue_owner issue \<and> ds_name d = issue_name issue
      \<and> ds_number d = issue_number issue)"

definition purged :: "issue \<Rightarrow> dataset list \<Rightarrow> dataset list" where
  "purged issue ds =
     (case issue of
        ResolvedIssue _ \<Rightarrow>
          filter (\<lambda>d. \<not> (snapshot_of issue d \<and> ds_resolver_commit_num d = - 1)) ds
      | OpenIssue _ \<Rightarrow> ds)"

definition canonical :: "issue \<Rightarrow> state \<Rightarrow> repo_issue option" where
  "canonical issue s =
     find (\<lambda>i. ri_owner i = issue_owner issue \<and> ri_name i = issue_name issue
                \<and> ri_number i = issue_number issue) (repo_issues s)"

definition settled :: "issue \<Rightarrow> bool" where
  "settled issue =
     (case issue of ResolvedIssue r \<Rightarrow> rs_resolver_commit_num r \<noteq> - 1 | OpenIssue _ \<Rightarrow> True)"

section \<open>Notions of the orchestrator's claims\<close>

text \<open>
  \<open>run_builds\<close> is the snapshot builder invoked at each (issue, cutoff) of a list, in
  order, each call on the state the one before left; an exception ends the sequence, as
  it ends the run. \<open>opened_log\<close> is the BuildLog record an entry point saves when it
  starts (lines 371-377 and 402-404), \<open>closed_log\<close> the same record as saved at the
  end (lines 385-388 and 416-419).
\<close>

fun run_builds :: "ext \<Rightarrow> (issue \<times> datetime) list \<Rightarrow> state \<Rightarrow> (error + unit) \<times> state" where
  "run_builds x [] s = (Inr (), s)"
| "run_builds x ((issue, t) # calls) s =
     (case get_dataset x issue t s of
        (Inl e, s1) \<Rightarrow> (Inl e, s1)
      | (Inr _, s1) \<Rightarrow> run_builds x calls s1)"

definition opened_log :: "string \<Rightarrow> string \<Rightarrow> int \<Rightarrow> string option \<Rightarrow> datetime \<Rightarrow> build_log" where
  "opened_log owner name pid github_login now_begin =
     \<lparr>bl_owner = owner, bl_name = name, bl_pid = pid, bl_github_user_login = github_login,
      bl_update_begin = now_begin, bl_update_end = None, bl_updated_open_issues = None,
      bl_updated_resolved_issues = None\<rparr>"

definition closed_log :: "build_log \<Rightarrow> nat \<Rightarrow> nat \<Rightarrow> datetime \<Rightarrow> build_log" where
  "closed_log l n_open n_resolved now_end =
     l\<lparr>bl_updated_open_issues := Some n_open, bl_updated_resolved_issues := Some n_resolved,
       bl_update_end := Some now_end\<rparr>"

section \<open>Example data\<close>

definition empty_state :: state where
  "empty_state =
     \<lparr>repo_commits = [], repo_issues = [], resolved_issues = [], open_issues = [],
      repos = [], datasets = [], build_logs = [], logged = []\<rparr>"

definition commit_by_other :: repo_commit where
  "commit_by_other =
     \<lparr>rc_owner = ''o'', rc_name = ''r'', rc_author = ''alice'', rc_committer = ''bob'',
      rc_authored_at = 1, rc_committed_at = 2\<rparr>"

definition commit_for_other :: repo_commit where
  "commit_for_other =
     \<lparr>rc_owner = ''o'', rc_name = ''r'', rc_author = ''carol'', rc_committer = ''alice'',
      rc_authored_at = 1, rc_committed_at = 2\<rparr>"

definition commit_web :: repo_commit where
  "commit_web =
     \<lparr>rc_owner = ''o'', rc_name = ''r'', rc_author = ''alice'', rc_committer = ''web-flow'',
      rc_authored_at = 3, rc_committed_at = 3\<rparr>"

definition labeled_x :: issue_event where
  "labeled_x =
     \<lparr>ev_type = ''labeled'', ev_actor = None, ev_time = 1, ev_label = ''x'', ev_comment = []\<rparr>"

definition unlabeled_x :: issue_event where
  "unlabeled_x =
     \<lparr>ev_type = ''unlabeled'', ev_actor = None, ev_time = 2, ev_label = ''x'', ev_comment = []\<rparr>"

definition ex_ext :: ext where
  "ex_ext =
     \<lparr>lemmatize = (\<lambda>w. w), coleman_liau_index = (\<lambda>s. 0), flesch_reading_ease = (\<lambda>s. 0),
      flesch_kincaid_grade = (\<lambda>s. 0), automated_readability_index = (\<lambda>s. 0),
      median = (\<lambda>xs. 0)\<rparr>"

definition ex_repo_issue :: repo_issue where
  "ex_repo_issue =
     \<lparr>ri_owner = ''o'', ri_name = ''r'', ri_number = 1, ri_user = ''alice'',
      ri_state = ''closed'', ri_created_at = 1, ri_closed_at = Some 9,
      ri_title = Some ''a bug'', ri_body = None, ri_is_pull = False\<rparr>"

definition ex_resolved :: resolved_issue where
  "ex_resolved =
     \<lparr>rs_owner = ''o'', rs_name = ''r'', rs_number = 1, rs_created_at = 1,
      rs_resolved_at = 9, rs_resolver_commit_num = 2, rs_events = [labeled_x]\<rparr>"

definition ex_repo :: repo where
  "ex_repo =
     \<lparr>rp_owner = ''o'', rp_name = ''r'', rp_monthly_stars = [],
      rp_monthly_pulls = [], rp_monthly_commits = []\<rparr>"

definition ex_user :: "string \<Rightarrow> nat \<Rightarrow> int list \<Rightarrow> user_feature" where
  "ex_user u n cs =
     \<lparr>uf_name = u, uf_n_commits = 0, uf_n_issues = n, uf_n_pulls = 0,
      uf_resolver_commits = cs\<rparr>"

definition ex_snapshot :: "datetime \<Rightarrow> int \<Rightarrow> dataset" where
  "ex_snapshot before rcn =
     \<lparr>ds_owner = ''o'', ds_name = ''r'', ds_number = 1, ds_created_at = 1,
      ds_closed_at = Some 9, ds_before = before, ds_resolver_commit_num = rcn,
      ds_title = Some ''a bug'', ds_body = [], ds_len_title = 2, ds_len_body = 0,
      ds_n_code_snips = 0, ds_n_urls = 0, ds_n_imgs = 0,
      ds_coleman_liau_index = 0, ds_flesch_reading_ease = 0, ds_flesch_kincaid_grade = 0,
      ds_automated_readability_index = 0,
      ds_labels = [], ds_label_category = get_categorized_labels (\<lambda>w. w) [],
      ds_reporter_feat = ex_user ''alice'' 0 [], ds_owner_feat = ex_user ''o'' 0 [],
      ds_prev_resolver_commits = [], ds_n_stars = 0, ds_n_pulls = 0, ds_n_commits = 0,
      ds_n_contributors = 0, ds_n_closed_issues = 0, ds_n_open_issues = 0,
      ds_r_open_issues = 0, ds_issue_close_time = 0,
      ds_comments = [], ds_events = [], ds_comment_users = [], ds_event_users = []\<rparr>"

definition ex_state :: state where
  "ex_state =
     empty_state\<lparr>repo_issues := [ex_repo_issue], resolved_issues := [ex_resolved],
                 repos := [ex_repo], datasets := [ex_snapshot 5 (- 1)]\<rparr>"

definition ex_pull_issue :: repo_issue where
  "ex_pull_issue =
     \<lparr>ri_owner = ''o'', ri_name = ''r'', ri_number = 2, ri_user = ''alice'',
      ri_state = ''open'', ri_created_at = 1, ri_closed_at = None,
      ri_title = Some ''a pull'', ri_body = None, ri_is_pull = True\<rparr>"

definition ex_resolved_pull :: resolved_issue where
  "ex_resolved_pull =
     \<lparr>rs_owner = ''o'', rs_name = ''r'', rs_number = 2, rs_created_at = 1,
      rs_resolved_at = 9, rs_resolver_commit_num = 2, rs_events = []\<rparr>"

definition ex_open_pull :: open_issue where
  "ex_open_pull =
     \<lparr>oi_owner = ''o'', oi_name = ''r'', oi_number = 2, oi_created_at = 1,
      oi_updated_at = 4, oi_events = []\<rparr>"

definition ex_open :: open_issue where
  "ex_open =
     \<lparr>oi_owner = ''o'', oi_name = ''r'', oi_number = 1, oi_created_at = 1,
      oi_updated_at = 5, oi_events = [labeled_x]\<rparr>"

definition ex_built :: dataset where
  "ex_built =
     (ex_snapshot 5 2)
       \<lparr>ds_n_open_issues := 1, ds_r_open_issues := 1,
        ds_reporter_feat := ex_user ''alice'' 1 [], ds_labels := [''x''],
        ds_label_category := get_categorized_labels (\<lambda>w. w) [''x''],
        ds_events := [''labeled'']\<rparr>"

definition ex_state2 :: state where
  "ex_state2 = ex_state\<lparr>datasets := [ex_snapshot 5 (- 1), ex_snapshot 9 2]\<rparr>"

definition ex_state_open :: state where
  "ex_state_open = ex_state\<lparr>datasets := [ex_snapshot 5 (- 1)]\<rparr>"

definition ex_state_pull :: state where
  "ex_state_pull = empty_state\<lparr>repo_issues := [ex_pull_issue]\<rparr>"

definition ex_active_log :: build_log where
  "ex_active_log = opened_log ''o'' ''r'' 7 None 0"

definition ex_global_log :: build_log where
  "ex_global_log = opened_log [] [] 7 None 0"

definition ex_locked :: state where
  "ex_locked = ex_state\<lparr>build_logs := [ex_active_log, ex_global_log]\<rparr>"

section \<open>Claims about the text features\<close>

lemma findall_url_shape:
  "list_all (\<lambda>tok. prefix ''http'' tok \<and> drop 4 tok \<noteq> [] \<and> list_all url_char (drop 4 tok))
     (findall_url s)"
proof (induction s rule: findall_url.induct)
  case 1
  show ?case by simp
next
  case (2 c cs)
  show ?case
  proof (cases "prefix ''http'' (c # cs) \<and> takeWhile url_char (drop 4 (c # cs)) \<noteq> []")
    case True
    have "list_all url_char (takeWhile url_char (drop 4 (c # cs)))"
      by (simp add: list_all_iff) (meson set_takeWhileD)
    with True 2 show ?thesis by simp
  next
    case False
    with 2 show ?thesis by auto
  qed
qed

text \<open>
  C8, as the claim states it, fails: the source tests the suffixes \<open>jpg\<close>,
  \<open>jpeg\<close> and \<open>png\<close> without the dot, so a URL-like token such as
  \<open>http://x.com/notajpg\<close>, which does not end in \<open>.jpg\<close>, \<open>.jpeg\<close> or
  \<open>.png\<close>, is left out of \<open>count_urls\<close> and counted by \<open>count_imgs\<close>.
\<close>

theorem url_count_dot_counterexample:
  "count_urls (Some ''see http://x.com/notajpg'')
     \<noteq> length (filter (\<lambda>tok. \<not> (suffix ''.jpg'' tok \<or> suffix ''.jpeg'' tok \<or> suffix ''.png'' tok))
                 (findall_url ''see http://x.com/notajpg''))
   \<and> count_imgs (Some ''see http://x.com/notajpg'')
     \<noteq> length (filter (\<lambda>tok. suffix ''.jpg'' tok \<or> suffix ''.jpeg'' tok \<or> suffix ''.png'' tok)
                 (findall_url ''see http://x.com/notajpg''))
   \<and> findall_url ''see http://x.com/notajpg'' = [''http://x.com/notajpg'']
   \<and> count_urls (Some ''see http://x.com/notajpg'') = 0
   \<and> count_imgs (Some ''see http://x.com/notajpg'') = 1"
  by code_simp

text \<open>
  C8, amended (URL/image partition): for every string \<open>s\<close>, \<open>count_urls\<close> counts
  the URL-like tokens of \<open>s\<close> (the matches of \<open>http[:/\w\.]+\<close>, each \<open>http\<close>
  followed by a non-empty run of class characters) that do not end in \<open>jpg\<close>,
  \<open>jpeg\<close> or \<open>png\<close> (no dot is required), \<open>count_imgs\<close> counts exactly the
  tokens that do, so the two counts add up to the number of tokens; \<open>None\<close> counts 0;
  and for the body \<open>see http://x.com/a and http://x.com/b.png\<close> both counts are 1.
\<close>

theorem url_image_partition:
  "count_urls (Some s) =
     length (filter (\<lambda>tok. \<not> (suffix ''jpg'' tok \<or> suffix ''jpeg'' tok \<or> suffix ''png'' tok))
               (findall_url s))
   \<and> count_imgs (Some s) =
     length (filter (\<lambda>tok. suffix ''jpg'' tok \<or> suffix ''jpeg'' tok \<or> suffix ''png'' tok)
               (findall_url s))
   \<and> count_urls (Some s) + count_imgs (Some s) = length (findall_url s)
   \<and> list_all (\<lambda>tok. prefix ''http'' tok \<and> drop 4 tok \<noteq> [] \<and> list_all url_char (drop 4 tok))
        (findall_url s)
   \<and> count_urls None = 0 \<and> count_imgs None = 0
   \<and> findall_url ''see http://x.com/a and http://x.com/b.png''
       = [''http://x.com/a'', ''http://x.com/b.png'']
   \<and> count_urls (Some ''see http://x.com/a and http://x.com/b.png'') = 1
   \<and> count_imgs (Some ''see http://x.com/a and http://x.com/b.png'') = 1"
proof -
  have a: "count_urls (Some s) =
     length (filter (\<lambda>tok. \<not> (suffix ''jpg'' tok \<or> suffix ''jpeg'' tok \<or> suffix ''png'' tok))
               (findall_url s))"
    by (simp add: count_urls_def endswith_def)
  have b: "count_imgs (Some s) =
     length (filter (\<lambda>tok. suffix ''jpg'' tok \<or> suffix ''jpeg'' tok \<or> suffix ''png'' tok)
               (findall_url s))"
    by (simp add: count_imgs_def endswith_def)
  have c: "count_urls (Some s) + count_imgs (Some s) = length (findall_url s)"
    unfolding a b
    using sum_length_filter_compl
      [of "\<lambda>tok. suffix ''jpg'' tok \<or> suffix ''jpeg'' tok \<or> suffix ''png'' tok" "findall_url s"]
    by simp
  have d: "count_urls None = 0 \<and> count_imgs None = 0"
    by (simp add: count_urls_def count_imgs_def)
  have e: "findall_url ''see http://x.com/a and http://x.com/b.png''
       = [''http://x.com/a'', ''http://x.com/b.png'']"
    by code_simp
  have f: "count_urls (Some ''see http://x.com/a and http://x.com/b.png'') = 1"
    by code_simp
  have g: "count_imgs (Some ''see http://x.com/a and http://x.com/b.png'') = 1"
    by code_simp
  from a b c d e f g findall_url_shape [of s] show ?thesis by blast
qed

section \<open>Claims about the label categorizer\<close>

lemma rule_step_le_1: "match \<le> 1 \<Longrightarrow> rule_step words match rule \<le> 1"
  by (cases rule) auto

lemma foldl_rule_step_le_1: "match \<le> 1 \<Longrightarrow> foldl (rule_step words) match rules \<le> 1"
  by (induction rules arbitrary: match) (simp_all add: rule_step_le_1 del: One_nat_def)

lemma category_match_le_1: "category_match words rules \<le> 1"
  unfolding category_match_def by (rule foldl_rule_step_le_1) simp

text \<open>One pass over a rule table adds, to each key, the matches of the entries under that key.\<close>

lemma foldl_table:
  "foldl (\<lambda>lc (cat, rules). lc(cat := lc cat + f rules)) lc table k
     = lc k + sum_list (map (\<lambda>(cat, rules). (f rules :: nat)) (filter (\<lambda>(cat, rules). cat = k) table))"
  by (induction table arbitrary: lc) (auto simp: add.assoc split: prod.splits)

lemma filter_key_distinct:
  "distinct (map fst table) \<Longrightarrow> map_of table k = Some rules \<Longrightarrow>
   filter (\<lambda>(cat, rules). cat = k) table = [(k, rules)]"
proof (induction table)
  case Nil
  then show ?case by simp
next
  case (Cons a table)
  obtain c r where a: "a = (c, r)" by (cases a)
  show ?case
  proof (cases "c = k")
    case True
    with Cons.prems a have "k \<notin> fst ` set table" and r: "r = rules" by auto
    then have "filter (\<lambda>(cat, rules). cat = k) table = []"
      by (force simp: filter_empty_conv)
    with True a r show ?thesis by simp
  next
    case False
    with Cons a show ?thesis by simp
  qed
qed

lemma foldl_table_map_of:
  "distinct (map fst table) \<Longrightarrow> map_of table k = Some rules \<Longrightarrow>
   foldl (\<lambda>lc (cat, rules). lc(cat := lc cat + f rules)) lc table k = lc k + (f rules :: nat)"
proof -
  assume "distinct (map fst table)" and "map_of table k = Some rules"
  then have "filter (\<lambda>(cat, rules). cat = k) table = [(k, rules)]"
    by (rule filter_key_distinct)
  then show ?thesis
    by (simp add: foldl_table)
qed

lemma distinct_keyword_rules: "distinct (map fst keyword_rules)"
  by (simp add: keyword_rules_def)

lemma categorize_label_at:
  "map_of keyword_rules cat = Some rules \<Longrightarrow>
   categorize_label lem lc label cat
     = lc cat + category_match (label_words lem label) rules"
  unfolding categorize_label_def Let_def
  by (rule foldl_table_map_of [OF distinct_keyword_rules])

lemma foldl_categorize_label_at:
  "map_of keyword_rules cat = Some rules \<Longrightarrow>
   foldl (categorize_label lem) lc labels cat
     = lc cat + sum_list (map (\<lambda>label. category_match (label_words lem label) rules) labels)"
  by (induction labels arbitrary: lc) (simp_all add: categorize_label_at)

lemma label_counter_at:
  "map_of keyword_rules cat = Some rules \<Longrightarrow>
   label_counter lem labels cat
     = sum_list (map (\<lambda>label. category_match (label_words lem label) rules) labels)"
  by (simp add: label_counter_def foldl_categorize_label_at)

lemma rules_bug: "map_of keyword_rules ''bug'' = Some [Kw ''bug'']"
  by (simp add: keyword_rules_def)

lemma rules_test: "map_of keyword_rules ''test'' = Some [Kw ''test'', Kw ''testing'']"
  by (simp add: keyword_rules_def)

lemma words_bug: "label_words lem ''bug'' = [lem ''bug'']"
  by (simp add: label_words_def lower_def lower_char_def replace_underscore_def is_word_char_def)

lemma words_bug_in_tests:
  "label_words lem ''bug-in-tests'' = [lem ''bug'', lem ''in'', lem ''tests'']"
  by (simp add: label_words_def lower_def lower_char_def replace_underscore_def is_word_char_def)

lemma match_bug:
  "sublist ''bug'' (lem ''bug'') \<Longrightarrow> category_match (label_words lem ''bug'') [Kw ''bug''] = 1"
  by (simp add: words_bug category_match_def)

lemma match_bug_in_tests:
  "sublist ''bug'' (lem ''bug'') \<Longrightarrow>
   category_match (label_words lem ''bug-in-tests'') [Kw ''bug''] = 1"
  by (simp add: words_bug_in_tests category_match_def)

lemma match_test_in_tests:
  "sublist ''test'' (lem ''tests'') \<Longrightarrow>
   category_match (label_words lem ''bug-in-tests'') [Kw ''test'', Kw ''testing''] = 1"
  by (simp add: words_bug_in_tests category_match_def)

lemma lc_bug_counter:
  "lc_bug (get_categorized_labels lem labels)
     = sum_list (map (\<lambda>label. category_match (label_words lem label) [Kw ''bug'']) labels)"
  by (simp add: get_categorized_labels_def Let_def label_counter_at [OF rules_bug])

lemma lc_test_counter:
  "lc_test (get_categorized_labels lem labels)
     = sum_list (map (\<lambda>label. category_match (label_words lem label)
                                  [Kw ''test'', Kw ''testing'']) labels)"
  by (simp add: get_categorized_labels_def Let_def label_counter_at [OF rules_test])

text \<open>
  C7 (label categorizer, multiplicity): for one label a category's match is at most 1,
  also when several of its rules match (\<open>testing\<close> matches both rules of
  \<open>test\<close> and counts 1); the counter of a category is the sum of the matches over
  all labels; the label \<open>bug\<close> alone yields bug = 1; a label whose words match the
  bug rules and the test rules adds 1 to both counts, as \<open>bug-in-tests\<close> does. The
  lemmatizer is a library outside the repository: of it the theorem assumes only that
  the lemma of \<open>bug\<close> contains \<open>bug\<close> and the lemma of \<open>tests\<close> contains
  \<open>test\<close>.
\<close>

theorem label_categorizer_counts:
  assumes bug: "sublist ''bug'' (lem ''bug'')"
    and tests: "sublist ''test'' (lem ''tests'')"
  shows
    "category_match words rules \<le> 1
     \<and> category_match [''testing''] [Kw ''test'', Kw ''testing''] = 1
     \<and> (map_of keyword_rules cat = Some rules' \<longrightarrow>
          label_counter lem labels cat
            = sum_list (map (\<lambda>label. category_match (label_words lem label) rules') labels))
     \<and> lc_bug (get_categorized_labels lem labels)
          = sum_list (map (\<lambda>label. category_match (label_words lem label) [Kw ''bug'']) labels)
     \<and> lc_test (get_categorized_labels lem labels)
          = sum_list (map (\<lambda>label. category_match (label_words lem label)
                                       [Kw ''test'', Kw ''testing'']) labels)
     \<and> lc_bug (get_categorized_labels lem [''bug'']) = 1
     \<and> (category_match (label_words lem l) [Kw ''bug''] = 1
          \<and> category_match (label_words lem l) [Kw ''test'', Kw ''testing''] = 1 \<longrightarrow>
          lc_bug (get_categorized_labels lem (labels @ [l]))
            = lc_bug (get_categorized_labels lem labels) + 1
          \<and> lc_test (get_categorized_labels lem (labels @ [l]))
            = lc_test (get_categorized_labels lem labels) + 1)
     \<and> lc_bug (get_categorized_labels lem [''bug-in-tests'']) = 1
     \<and> lc_test (get_categorized_labels lem [''bug-in-tests'']) = 1"
proof -
  have a: "category_match words rules \<le> 1"
    by (rule category_match_le_1)
  have b: "category_match [''testing''] [Kw ''test'', Kw ''testing''] = 1"
    by (simp add: category_match_def)
  have c: "map_of keyword_rules cat = Some rules' \<longrightarrow>
          label_counter lem labels cat
            = sum_list (map (\<lambda>label. category_match (label_words lem label) rules') labels)"
    by (simp add: label_counter_at)
  have d: "lc_bug (get_categorized_labels lem [''bug'']) = 1"
    using bug by (simp add: lc_bug_counter match_bug)
  have e: "category_match (label_words lem l) [Kw ''bug''] = 1
          \<and> category_match (label_words lem l) [Kw ''test'', Kw ''testing''] = 1 \<longrightarrow>
          lc_bug (get_categorized_labels lem (labels @ [l]))
            = lc_bug (get_categorized_labels lem labels) + 1
          \<and> lc_test (get_categorized_labels lem (labels @ [l]))
            = lc_test (get_categorized_labels lem labels) + 1"
    by (simp add: lc_bug_counter lc_test_counter)
  have f: "lc_bug (get_categorized_labels lem [''bug-in-tests'']) = 1"
    using bug by (simp add: lc_bug_counter match_bug_in_tests)
  have g: "lc_test (get_categorized_labels lem [''bug-in-tests'']) = 1"
    using tests by (simp add: lc_test_counter match_test_in_tests)
  from a b c d e f g lc_bug_counter [of lem labels] lc_test_counter [of lem labels]
  show ?thesis by blast
qed

text \<open>The hypotheses of C7 hold for the lemmatizer that changes no word.\<close>

theorem label_categorizer_counts_witness:
  "sublist ''bug'' ((\<lambda>w. w) ''bug'') \<and> sublist ''test'' ((\<lambda>w. w) ''tests'')
   \<and> map_of keyword_rules ''test'' = Some [Kw ''test'', Kw ''testing'']
   \<and> category_match (label_words (\<lambda>w. w) ''bug-in-tests'') [Kw ''bug''] = 1
   \<and> category_match (label_words (\<lambda>w. w) ''bug-in-tests'') [Kw ''test'', Kw ''testing''] = 1
   \<and> category_match [''testing'', ''test''] [Kw ''test'', Kw ''testing''] \<le> 1
   \<and> label_counter (\<lambda>w. w) [''bug'', ''testing''] ''test''
       = sum_list (map (\<lambda>label. category_match (label_words (\<lambda>w. w) label)
                                    [Kw ''test'', Kw ''testing'']) [''bug'', ''testing''])
   \<and> lc_bug (get_categorized_labels (\<lambda>w. w) [''bug'']) = 1
   \<and> lc_bug (get_categorized_labels (\<lambda>w. w) ([''bug'', ''testing''] @ [''bug-in-tests'']))
       = lc_bug (get_categorized_labels (\<lambda>w. w) [''bug'', ''testing'']) + 1
   \<and> lc_test (get_categorized_labels (\<lambda>w. w) ([''bug'', ''testing''] @ [''bug-in-tests'']))
       = lc_test (get_categorized_labels (\<lambda>w. w) [''bug'', ''testing'']) + 1
   \<and> lc_bug (get_categorized_labels (\<lambda>w. w) [''bug-in-tests'']) = 1
   \<and> lc_test (get_categorized_labels (\<lambda>w. w) [''bug-in-tests'']) = 1"
proof -
  have h1: "sublist ''bug'' ((\<lambda>w. w) ''bug'')" by simp
  have h2: "sublist ''test'' ((\<lambda>w. w) ''tests'')" by code_simp
  have h3: "map_of keyword_rules ''test'' = Some [Kw ''test'', Kw ''testing'']"
    by (rule rules_test)
  have h4: "category_match (label_words (\<lambda>w. w) ''bug-in-tests'') [Kw ''bug''] = 1"
    using h1 match_bug_in_tests [of "\<lambda>w. w"] by simp
  have h5: "category_match (label_words (\<lambda>w. w) ''bug-in-tests'') [Kw ''test'', Kw ''testing''] = 1"
    using h2 match_test_in_tests [of "\<lambda>w. w"] by simp
  show ?thesis
    using h1 h2 h3 h4 h5
      label_categorizer_counts [of "\<lambda>w. w" "[''testing'', ''test'']" "[Kw ''test'', Kw ''testing'']"
        "''test''" "[Kw ''test'', Kw ''testing'']" "[''bug'', ''testing'']" "''bug-in-tests''"]
    by blast
qed

section \<open>Claims about the user feature aggregator\<close>

lemma closed_numbers_ok:
  "list_all (\<lambda>i. ri_state i = ''closed'' \<longrightarrow> ri_closed_at i \<noteq> None) is \<Longrightarrow>
   \<exists>ns. closed_numbers t is = Inr ns"
  by (induction "is") auto

lemma get_user_data_commits:
  "get_user_data db owner name user t = Inr uf \<Longrightarrow> user \<noteq> ''ghost'' \<Longrightarrow>
   uf_n_commits uf =
     length (filter (\<lambda>c. rc_owner c = owner \<and> rc_name c = name
                          \<and> rc_authored_at c \<le> t \<and> rc_committed_at c \<le> t
                          \<and> (rc_committer c = user
                               \<or> (rc_author c = user \<and> rc_committer c = ''web-flow'')))
               (repo_commits db))"
  by (auto simp: get_user_data_def Let_def split: sum.splits)

lemma get_user_data_returns:
  assumes "list_all (\<lambda>i. ri_state i = ''closed'' \<longrightarrow> ri_closed_at i \<noteq> None) (repo_issues db)"
  shows "\<exists>uf. get_user_data db owner name user t = Inr uf"
proof -
  let ?q = "\<lambda>i. (ri_owner i = owner \<and> ri_name i = name \<and> ri_user i = user
                    \<and> ri_created_at i \<le> t) \<and> ri_is_pull i = False"
  from assms have "list_all (\<lambda>i. ri_state i = ''closed'' \<longrightarrow> ri_closed_at i \<noteq> None)
      (filter ?q (repo_issues db))"
    by (simp add: list_all_iff)
  then obtain ns where "closed_numbers t (filter ?q (repo_issues db)) = Inr ns"
    using closed_numbers_ok by blast
  then show ?thesis
    by (simp add: get_user_data_def Let_def)
qed

text \<open>
  C1, amended: for a user that is not the deleted-account sentinel \<open>ghost\<close>, the
  commit count of \<open>_get_user_data\<close>, when it returns, is the number of commits of the
  repository (owner, name) whose authored time and committed time are both at most the
  cutoff and whose committer is the given user, or whose author is the given user and
  whose committer is \<open>web-flow\<close>. It returns whenever no closed issue of the store
  lacks its closing time.
\<close>

theorem user_commit_count:
  assumes "user \<noteq> ''ghost''"
  shows
    "(get_user_data db owner name user t = Inr uf \<longrightarrow>
        uf_n_commits uf =
          length (filter (\<lambda>c. rc_owner c = owner \<and> rc_name c = name
                               \<and> rc_authored_at c \<le> t \<and> rc_committed_at c \<le> t
                               \<and> (rc_committer c = user
                                    \<or> (rc_author c = user \<and> rc_committer c = ''web-flow'')))
                    (repo_commits db)))
     \<and> (list_all (\<lambda>i. ri_state i = ''closed'' \<longrightarrow> ri_closed_at i \<noteq> None) (repo_issues db) \<longrightarrow>
          (\<exists>uf'. get_user_data db owner name user t = Inr uf'))"
  using assms get_user_data_commits [of db owner name user t uf]
    get_user_data_returns [of db owner name user t]
  by blast

text \<open>
  The hypotheses of C1 at a store of three commits: of \<open>alice\<close>'s two authored
  commits only the one committed by \<open>web-flow\<close> counts, and the commit she committed
  for \<open>carol\<close> counts.
\<close>

theorem user_commit_count_witness:
  "''alice'' \<noteq> ''ghost''
   \<and> list_all (\<lambda>i. ri_state i = ''closed'' \<longrightarrow> ri_closed_at i \<noteq> None)
        (repo_issues (empty_state\<lparr>repo_commits := [commit_by_other, commit_for_other, commit_web]\<rparr>))
   \<and> get_user_data (empty_state\<lparr>repo_commits := [commit_by_other, commit_for_other, commit_web]\<rparr>)
        ''o'' ''r'' ''alice'' 5
      = Inr \<lparr>uf_name = ''alice'', uf_n_commits = 2, uf_n_issues = 0, uf_n_pulls = 0,
             uf_resolver_commits = []\<rparr>
   \<and> length (filter (\<lambda>c. rc_owner c = ''o'' \<and> rc_name c = ''r''
                          \<and> rc_authored_at c \<le> 5 \<and> rc_committed_at c \<le> 5
                          \<and> (rc_committer c = ''alice''
                               \<or> (rc_author c = ''alice'' \<and> rc_committer c = ''web-flow'')))
               (repo_commits (empty_state\<lparr>repo_commits := [commit_by_other, commit_for_other, commit_web]\<rparr>))) = 2"
proof -
  have h: "''alice'' \<noteq> ''ghost''" by simp
  have r: "get_user_data (empty_state\<lparr>repo_commits := [commit_by_other, commit_for_other, commit_web]\<rparr>)
        ''o'' ''r'' ''alice'' 5
      = Inr \<lparr>uf_name = ''alice'', uf_n_commits = 2, uf_n_issues = 0, uf_n_pulls = 0,
             uf_resolver_commits = []\<rparr>"
    by (simp add: get_user_data_def empty_state_def commit_by_other_def commit_for_other_def
        commit_web_def)
  have i: "list_all (\<lambda>i. ri_state i = ''closed'' \<longrightarrow> ri_closed_at i \<noteq> None)
        (repo_issues (empty_state\<lparr>repo_commits := [commit_by_other, commit_for_other, commit_web]\<rparr>))"
    by (simp add: empty_state_def)
  from h r i user_commit_count [OF h, of "empty_state\<lparr>repo_commits := [commit_by_other, commit_for_other, commit_web]\<rparr>"
      "''o''" "''r''" 5 "\<lparr>uf_name = ''alice'', uf_n_commits = 2, uf_n_issues = 0, uf_n_pulls = 0,
             uf_resolver_commits = []\<rparr>"]
  show ?thesis by simp
qed

text \<open>
  C1, as the claim states it, fails: the query selects by committer, not by author. A
  commit authored by \<open>alice\<close> and committed by \<open>bob\<close> is one commit "whose author
  is the given user", and the count is 0; a commit authored by \<open>carol\<close> and committed
  by \<open>alice\<close> is none, and the count is 1.
\<close>

theorem user_commit_count_counterexample:
  "get_user_data (empty_state\<lparr>repo_commits := [commit_by_other]\<rparr>) ''o'' ''r'' ''alice'' 5
      = Inr \<lparr>uf_name = ''alice'', uf_n_commits = 0, uf_n_issues = 0, uf_n_pulls = 0,
             uf_resolver_commits = []\<rparr>
   \<and> length (filter (\<lambda>c. rc_authored_at c \<le> 5 \<and> rc_committed_at c \<le> 5
                          \<and> (rc_author c = ''alice''
                               \<or> (rc_author c = ''alice'' \<and> rc_committer c = ''web-flow'')))
               (repo_commits (empty_state\<lparr>repo_commits := [commit_by_other]\<rparr>))) = 1
   \<and> get_user_data (empty_state\<lparr>repo_commits := [commit_for_other]\<rparr>) ''o'' ''r'' ''alice'' 5
      = Inr \<lparr>uf_name = ''alice'', uf_n_commits = 1, uf_n_issues = 0, uf_n_pulls = 0,
             uf_resolver_commits = []\<rparr>
   \<and> length (filter (\<lambda>c. rc_authored_at c \<le> 5 \<and> rc_committed_at c \<le> 5
                          \<and> (rc_author c = ''alice''
                               \<or> (rc_author c = ''alice'' \<and> rc_committer c = ''web-flow'')))
               (repo_commits (empty_state\<lparr>repo_commits := [commit_for_other]\<rparr>))) = 0"
  by (simp add: get_user_data_def empty_state_def commit_by_other_def commit_for_other_def)

section \<open>Claims about the dynamics replayer\<close>

lemma replay_snoc: "replay (es @ [e]) t = dynamics_step t (replay es t) e"
  by (simp add: replay_def)

lemma step_labeled:
  "ev_time e \<le> t \<Longrightarrow> ev_type e = ''labeled'' \<Longrightarrow>
   dy_labels (dynamics_step t d e) = dy_labels d @ [ev_label e]"
  by (simp add: dynamics_step_def Let_def split: option.splits)

lemma step_unlabeled:
  "ev_time e \<le> t \<Longrightarrow> ev_type e = ''unlabeled'' \<Longrightarrow>
   dy_labels (dynamics_step t d e) = remove1 (ev_label e) (dy_labels d)"
  by (simp add: dynamics_step_def Let_def remove1_idem split: option.splits)

lemma step_other:
  "\<not> ev_time e \<le> t \<or> (ev_type e \<noteq> ''labeled'' \<and> ev_type e \<noteq> ''unlabeled'') \<Longrightarrow>
   dy_labels (dynamics_step t d e) = dy_labels d"
  by (auto simp: dynamics_step_def Let_def split: option.splits)

lemma step_unlabeled_absent:
  "ev_type e = ''unlabeled'' \<Longrightarrow> ev_label e \<notin> set (dy_labels d) \<Longrightarrow>
   dy_labels (dynamics_step t d e) = dy_labels d
   \<and> dy_comments (dynamics_step t d e) = dy_comments d
   \<and> dy_comment_users (dynamics_step t d e) = dy_comment_users d"
  by (simp add: dynamics_step_def Let_def split: option.splits)

lemma step_unlabeled_absent_no_actor:
  "ev_type e = ''unlabeled'' \<Longrightarrow> ev_label e \<notin> set (dy_labels d) \<Longrightarrow>
   ev_actor e = None \<or> ev_actor e = Some ''ghost'' \<Longrightarrow>
   dynamics_step t d e = d"
  by (auto simp: dynamics_step_def Let_def split: option.splits)

lemma get_dynamics_data_labels:
  "get_dynamics_data db owner name es t = Inr (ls, cs, cus, eus) \<Longrightarrow>
   ls = dy_labels (replay es t) \<and> cs = dy_comments (replay es t)"
  by (auto simp: get_dynamics_data_def Let_def split: sum.splits)

text \<open>
  C5, amended: the dynamics replayer keeps the replayed labels as a list, not as a set.
  A \<open>labeled\<close> event up to the cutoff appends its label (also when the label is
  already there), an \<open>unlabeled\<close> event up to the cutoff removes one occurrence of
  its label, the first, and any other event, or one after the cutoff, leaves the labels
  as they are; the labels \<open>_get_dynamics_data\<close> returns are the replayed ones. While
  no event adds a label that is present, the list has no duplicates, and an
  \<open>unlabeled\<close> event then leaves none of its label. Replaying
  \<open>[labeled(x), labeled(x), unlabeled(x)]\<close> yields \<open>[x]\<close>, and
  \<open>[labeled(x), unlabeled(x)]\<close> yields the empty list.
\<close>

theorem replayed_labels_list:
  "(ev_time e \<le> t \<and> ev_type e = ''labeled'' \<longrightarrow>
      dy_labels (replay (es @ [e]) t) = dy_labels (replay es t) @ [ev_label e])
   \<and> (ev_time e \<le> t \<and> ev_type e = ''unlabeled'' \<longrightarrow>
      dy_labels (replay (es @ [e]) t) = remove1 (ev_label e) (dy_labels (replay es t)))
   \<and> (\<not> ev_time e \<le> t \<or> (ev_type e \<noteq> ''labeled'' \<and> ev_type e \<noteq> ''unlabeled'') \<longrightarrow>
      dy_labels (replay (es @ [e]) t) = dy_labels (replay es t))
   \<and> (distinct (dy_labels (replay es t)) \<and> ev_label e \<notin> set (dy_labels (replay es t)) \<longrightarrow>
      distinct (dy_labels (replay (es @ [e]) t)))
   \<and> (distinct (dy_labels (replay es t)) \<and> ev_time e \<le> t \<and> ev_type e = ''unlabeled'' \<longrightarrow>
      distinct (dy_labels (replay (es @ [e]) t))
      \<and> ev_label e \<notin> set (dy_labels (replay (es @ [e]) t)))
   \<and> (get_dynamics_data db owner name es t = Inr (ls, cs, cus, eus) \<longrightarrow>
      ls = dy_labels (replay es t))
   \<and> get_dynamics_data db owner name [labeled_x, labeled_x, unlabeled_x] 5
        = Inr ([''x''], [], [], [])
   \<and> get_dynamics_data db owner name [labeled_x, unlabeled_x] 5 = Inr ([], [], [], [])"
proof -
  have a: "ev_time e \<le> t \<and> ev_type e = ''labeled'' \<longrightarrow>
      dy_labels (replay (es @ [e]) t) = dy_labels (replay es t) @ [ev_label e]"
    by (simp add: replay_snoc step_labeled)
  have b: "ev_time e \<le> t \<and> ev_type e = ''unlabeled'' \<longrightarrow>
      dy_labels (replay (es @ [e]) t) = remove1 (ev_label e) (dy_labels (replay es t))"
    by (simp add: replay_snoc step_unlabeled)
  have c: "\<not> ev_time e \<le> t \<or> (ev_type e \<noteq> ''labeled'' \<and> ev_type e \<noteq> ''unlabeled'') \<longrightarrow>
      dy_labels (replay (es @ [e]) t) = dy_labels (replay es t)"
    using step_other [of e t "replay es t"] by (simp add: replay_snoc)
  have d: "distinct (dy_labels (replay es t)) \<and> ev_label e \<notin> set (dy_labels (replay es t)) \<longrightarrow>
      distinct (dy_labels (replay (es @ [e]) t))"
    by (auto simp: replay_snoc dynamics_step_def Let_def split: option.splits)
  have e: "distinct (dy_labels (replay es t)) \<and> ev_time e \<le> t \<and> ev_type e = ''unlabeled'' \<longrightarrow>
      distinct (dy_labels (replay (es @ [e]) t))
      \<and> ev_label e \<notin> set (dy_labels (replay (es @ [e]) t))"
    by (simp add: replay_snoc step_unlabeled)
  have f: "get_dynamics_data db owner name es t = Inr (ls, cs, cus, eus) \<longrightarrow>
      ls = dy_labels (replay es t)"
    using get_dynamics_data_labels by blast
  have g: "get_dynamics_data db owner name [labeled_x, labeled_x, unlabeled_x] 5
        = Inr ([''x''], [], [], [])"
    by (simp add: get_dynamics_data_def replay_def dynamics_step_def labeled_x_def unlabeled_x_def)
  have h: "get_dynamics_data db owner name [labeled_x, unlabeled_x] 5 = Inr ([], [], [], [])"
    by (simp add: get_dynamics_data_def replay_def dynamics_step_def labeled_x_def unlabeled_x_def)
  from a b c d e f g h show ?thesis by blast
qed

text \<open>
  The hypotheses of C5 at the events \<open>labeled_x\<close> and \<open>unlabeled_x\<close>.
\<close>

theorem replayed_labels_list_witness:
  "ev_time labeled_x \<le> 5 \<and> ev_type labeled_x = ''labeled''
   \<and> ev_time unlabeled_x \<le> 5 \<and> ev_type unlabeled_x = ''unlabeled''
   \<and> dy_labels (replay ([labeled_x] @ [labeled_x]) 5)
       = dy_labels (replay [labeled_x] 5) @ [ev_label labeled_x]
   \<and> dy_labels (replay ([labeled_x] @ [unlabeled_x]) 5)
       = remove1 (ev_label unlabeled_x) (dy_labels (replay [labeled_x] 5))
   \<and> dy_labels (replay ([labeled_x] @ [labeled_x]) 0) = dy_labels (replay [labeled_x] 0)
   \<and> distinct (dy_labels (replay [labeled_x] 5))
   \<and> distinct (dy_labels (replay ([labeled_x] @ [unlabeled_x]) 5))
   \<and> get_dynamics_data empty_state ''o'' ''r'' [labeled_x] 5 = Inr ([''x''], [], [], [])
   \<and> [''x''] = dy_labels (replay [labeled_x] 5)"
proof -
  have h: "ev_time labeled_x \<le> 5 \<and> ev_type labeled_x = ''labeled''
     \<and> ev_time unlabeled_x \<le> 5 \<and> ev_type unlabeled_x = ''unlabeled''
     \<and> \<not> ev_time labeled_x \<le> 0"
    by (simp add: labeled_x_def unlabeled_x_def)
  have d: "distinct (dy_labels (replay [labeled_x] 5))"
    by (simp add: replay_def dynamics_step_def labeled_x_def)
  have g: "get_dynamics_data empty_state ''o'' ''r'' [labeled_x] 5 = Inr ([''x''], [], [], [])"
    by (simp add: get_dynamics_data_def replay_def dynamics_step_def labeled_x_def)
  from h d g
    replayed_labels_list [of labeled_x 5 "[labeled_x]" empty_state "''o''" "''r''"
      "[''x'']" "[]" "[]" "[]"]
    replayed_labels_list [of unlabeled_x 5 "[labeled_x]"]
    replayed_labels_list [of labeled_x 0 "[labeled_x]"]
  show ?thesis by blast
qed

text \<open>
  C5, as the claim states it, fails: \<open>labels\<close> is a Python list, \<open>append\<close> adds
  a second occurrence, and \<open>remove\<close> takes one occurrence away. Replaying
  \<open>[labeled(x), labeled(x)]\<close> returns a label twice, and replaying
  \<open>[labeled(x), labeled(x), unlabeled(x)]\<close> returns \<open>[x]\<close>, not the empty
  collection.
\<close>

theorem replayed_labels_set_counterexample:
  "get_dynamics_data empty_state ''o'' ''r'' [labeled_x, labeled_x] 5
     = Inr ([''x'', ''x''], [], [], [])
   \<and> \<not> distinct [''x'', ''x'']
   \<and> get_dynamics_data empty_state ''o'' ''r'' [labeled_x, labeled_x, unlabeled_x] 5
     = Inr ([''x''], [], [], [])
   \<and> [''x''] \<noteq> ([] :: string list)"
  by (simp add: get_dynamics_data_def replay_def dynamics_step_def labeled_x_def unlabeled_x_def)

text \<open>
  C6 (unlabel without label): an \<open>unlabeled\<close> event whose label is not among the
  replayed labels changes neither the labels nor the comments nor the commenters; when
  its actor is null or the deleted-account sentinel, \<open>_get_dynamics_data\<close> returns
  with the event what it returns without it. The replay is a total function: it has no
  exception. Replaying the single event \<open>unlabeled(x)\<close> returns, without raising,
  the empty label list.
\<close>

theorem unlabel_absent_ignored:
  assumes "ev_type e = ''unlabeled''" and "ev_label e \<notin> set (dy_labels (replay es t))"
  shows
    "dy_labels (replay (es @ [e]) t) = dy_labels (replay es t)
     \<and> dy_comments (replay (es @ [e]) t) = dy_comments (replay es t)
     \<and> dy_comment_users (replay (es @ [e]) t) = dy_comment_users (replay es t)
     \<and> (ev_actor e = None \<or> ev_actor e = Some ''ghost'' \<longrightarrow>
          get_dynamics_data db owner name (es @ [e]) t = get_dynamics_data db owner name es t)
     \<and> get_dynamics_data db owner name
          [\<lparr>ev_type = ''unlabeled'', ev_actor = None, ev_time = tm, ev_label = x,
            ev_comment = c\<rparr>] t
        = Inr ([], [], [], [])"
proof -
  have a: "dy_labels (replay (es @ [e]) t) = dy_labels (replay es t)
     \<and> dy_comments (replay (es @ [e]) t) = dy_comments (replay es t)
     \<and> dy_comment_users (replay (es @ [e]) t) = dy_comment_users (replay es t)"
    using assms step_unlabeled_absent [of e "replay es t" t] by (simp add: replay_snoc)
  have b: "ev_actor e = None \<or> ev_actor e = Some ''ghost'' \<longrightarrow>
          get_dynamics_data db owner name (es @ [e]) t = get_dynamics_data db owner name es t"
    using assms step_unlabeled_absent_no_actor [of e "replay es t" t]
    by (simp add: get_dynamics_data_def replay_snoc)
  have c: "get_dynamics_data db owner name
          [\<lparr>ev_type = ''unlabeled'', ev_actor = None, ev_time = tm, ev_label = x,
            ev_comment = c\<rparr>] t
        = Inr ([], [], [], [])"
    by (simp add: get_dynamics_data_def replay_def dynamics_step_def)
  from a b c show ?thesis by blast
qed

text \<open>
  The hypotheses of C6 at the event \<open>unlabeled_x\<close> after no event.
\<close>

theorem unlabel_absent_ignored_witness:
  "ev_type unlabeled_x = ''unlabeled'' \<and> ev_label unlabeled_x \<notin> set (dy_labels (replay [] 5))
   \<and> ev_actor unlabeled_x = None
   \<and> dy_labels (replay ([] @ [unlabeled_x]) 5) = dy_labels (replay [] 5)
   \<and> dy_labels (replay [] 5) = []
   \<and> get_dynamics_data empty_state ''o'' ''r'' ([] @ [unlabeled_x]) 5
       = get_dynamics_data empty_state ''o'' ''r'' [] 5
   \<and> get_dynamics_data empty_state ''o'' ''r'' [] 5 = Inr ([], [], [], [])"
proof -
  have h1: "ev_type unlabeled_x = ''unlabeled''" by (simp add: unlabeled_x_def)
  have h2: "ev_label unlabeled_x \<notin> set (dy_labels (replay [] 5))" by (simp add: replay_def)
  have h3: "ev_actor unlabeled_x = None" by (simp add: unlabeled_x_def)
  have h4: "dy_labels (replay [] 5) = []" by (simp add: replay_def)
  have h5: "get_dynamics_data empty_state ''o'' ''r'' [] 5 = Inr ([], [], [], [])"
    by (simp add: get_dynamics_data_def replay_def)
  from h1 h2 h3 h4 h5 unlabel_absent_ignored [OF h1 h2, of empty_state "''o''" "''r''"]
  show ?thesis by blast
qed

section \<open>Claims about the snapshot builder\<close>

lemma get_user_data_frame:
  "repo_commits db' = repo_commits db \<Longrightarrow> repo_issues db' = repo_issues db \<Longrightarrow>
   resolved_issues db' = resolved_issues db \<Longrightarrow>
   get_user_data db' owner name user t = get_user_data db owner name user t"
  by (simp add: get_user_data_def Let_def split: sum.splits)

lemma user_features_frame:
  "repo_commits db' = repo_commits db \<Longrightarrow> repo_issues db' = repo_issues db \<Longrightarrow>
   resolved_issues db' = resolved_issues db \<Longrightarrow>
   user_features db' owner name t users = user_features db owner name t users"
  by (induction users) (simp_all add: get_user_data_frame [of db' db] split: sum.splits)

lemma get_dynamics_data_frame:
  "repo_commits db' = repo_commits db \<Longrightarrow> repo_issues db' = repo_issues db \<Longrightarrow>
   resolved_issues db' = resolved_issues db \<Longrightarrow>
   get_dynamics_data db' owner name es t = get_dynamics_data db owner name es t"
  by (simp add: get_dynamics_data_def Let_def user_features_frame [of db' db] split: sum.splits)

lemma get_background_data_frame:
  "repo_commits db' = repo_commits db \<Longrightarrow> repo_issues db' = repo_issues db \<Longrightarrow>
   get_background_data db' owner name t = get_background_data db owner name t"
  by (simp add: get_background_data_def Let_def split: sum.splits)

lemma build_dataset_frame:
  "repo_commits db' = repo_commits db \<Longrightarrow> repo_issues db' = repo_issues db \<Longrightarrow>
   resolved_issues db' = resolved_issues db \<Longrightarrow> repos db' = repos db \<Longrightarrow>
   build_dataset x db' issue t ri = build_dataset x db issue t ri"
  by (simp add: build_dataset_def Let_def get_background_data_frame [of db' db]
      get_dynamics_data_frame [of db' db] get_user_data_frame [of db' db]
      split: sum.splits prod.splits option.splits)

lemma build_dataset_key:
  "build_dataset x db issue t ri = Inr data \<Longrightarrow>
   snapshot_of issue data \<and> ds_before data = t
   \<and> ds_resolver_commit_num data
       = (case issue of ResolvedIssue r \<Rightarrow> rs_resolver_commit_num r | OpenIssue _ \<Rightarrow> - 1)"
  by (auto simp: build_dataset_def snapshot_of_def Let_def
      split: sum.splits prod.splits option.splits)

lemma build_dataset_datasets [simp]:
  "build_dataset x (db\<lparr>datasets := ds\<rparr>) issue t ri = build_dataset x db issue t ri"
  by (rule build_dataset_frame) simp_all

lemma build_dataset_logged [simp]:
  "build_dataset x (db\<lparr>logged := l\<rparr>) issue t ri = build_dataset x db issue t ri"
  by (rule build_dataset_frame) simp_all

lemma imp3: "(c \<longrightarrow> b \<longrightarrow> a \<longrightarrow> d) = (a \<and> b \<and> c \<longrightarrow> d)"
  by blast

text \<open>
  \<open>get_dataset\<close> in terms of the named queries: what it returns and the state it
  leaves, case by case.
\<close>

lemma get_dataset_unfold:
  "get_dataset x issue t s =
     (let s1 = s\<lparr>datasets := purged issue (datasets s)\<rparr>
      in (case filter (\<lambda>d. snapshot_of issue d \<and> ds_before d = t) (datasets s1) of
            d # _ \<Rightarrow>
              (Inr (Some d),
               s1\<lparr>logged := logged s @
                     [(INFO, Already_in_dataset (issue_owner issue) (issue_name issue)
                               (issue_number issue) t)]\<rparr>)
          | [] \<Rightarrow>
              (case canonical issue s of
                 None \<Rightarrow> (Inl AttributeError, s1)
               | Some ri \<Rightarrow>
                   if ri_is_pull ri
                   then (Inr None,
                         s1\<lparr>logged := logged s @
                               [(ERROR, Pull_request (issue_owner issue) (issue_name issue)
                                          (issue_number issue))]\<rparr>)
                   else
                     (case build_dataset x s issue t ri of
                        Inl e \<Rightarrow>
                          (Inl e,
                           s1\<lparr>logged := logged s @
                                 [(INFO, Build_start (issue_owner issue) (issue_name issue)
                                           (issue_number issue) t)]\<rparr>)
                      | Inr data \<Rightarrow>
                          (Inr (Some data),
                           s1\<lparr>datasets := datasets s1 @ [data],
                               logged := logged s @
                                 [(INFO, Build_start (issue_owner issue) (issue_name issue)
                                           (issue_number issue) t),
                                  (INFO, Build_done (issue_owner issue) (issue_name issue)
                                           (issue_number issue) t)]\<rparr>)))))"
  by (cases issue)
     (simp_all add: get_dataset_def purged_def snapshot_of_def canonical_def Let_def imp3
        cong: list.case_cong option.case_cong sum.case_cong if_cong)

lemma purged_idem: "purged issue (purged issue ds) = purged issue ds"
  by (cases issue) (simp_all add: purged_def)

lemma purged_subset: "set (purged issue ds) \<subseteq> set ds"
  by (cases issue) (auto simp: purged_def)

lemma purged_Open: "purged (OpenIssue i) ds = ds"
  by (simp add: purged_def)

lemma purged_Resolved:
  "purged (ResolvedIssue r) ds =
     filter (\<lambda>d. \<not> (ds_owner d = rs_owner r \<and> ds_name d = rs_name r
                      \<and> ds_number d = rs_number r \<and> ds_resolver_commit_num d = - 1)) ds"
  by (simp add: purged_def snapshot_of_def)

lemma no_existing_purged:
  "filter (\<lambda>d. snapshot_of issue d \<and> ds_before d = t) ds = [] \<Longrightarrow>
   filter (\<lambda>d. snapshot_of issue d \<and> ds_before d = t) (purged issue ds) = []"
  using purged_subset [of issue ds] by (auto simp: filter_empty_conv)

lemma purged_snoc:
  "settled issue \<Longrightarrow>
   ds_resolver_commit_num data
     = (case issue of ResolvedIssue r \<Rightarrow> rs_resolver_commit_num r | OpenIssue _ \<Rightarrow> - 1) \<Longrightarrow>
   purged issue (ds @ [data]) = purged issue ds @ [data]"
  by (cases issue) (simp_all add: purged_def settled_def)

lemma get_dataset_store:
  "datasets (snd (get_dataset x issue t s)) = purged issue (datasets s)
   \<or> (\<exists>data. fst (get_dataset x issue t s) = Inr (Some data)
         \<and> datasets (snd (get_dataset x issue t s)) = purged issue (datasets s) @ [data]
         \<and> filter (\<lambda>d. snapshot_of issue d \<and> ds_before d = t) (purged issue (datasets s)) = []
         \<and> snapshot_of issue data \<and> ds_before data = t
         \<and> ds_resolver_commit_num data
             = (case issue of ResolvedIssue r \<Rightarrow> rs_resolver_commit_num r
                | OpenIssue _ \<Rightarrow> - 1))"
  by (auto simp: get_dataset_unfold Let_def dest: build_dataset_key
      split: list.splits option.splits sum.splits)

lemma get_dataset_frame:
  "repo_commits (snd (get_dataset x issue t s)) = repo_commits s
   \<and> repo_issues (snd (get_dataset x issue t s)) = repo_issues s
   \<and> resolved_issues (snd (get_dataset x issue t s)) = resolved_issues s
   \<and> open_issues (snd (get_dataset x issue t s)) = open_issues s
   \<and> repos (snd (get_dataset x issue t s)) = repos s
   \<and> build_logs (snd (get_dataset x issue t s)) = build_logs s"
  by (simp add: get_dataset_unfold Let_def split: list.splits option.splits sum.splits)

lemma canonical_frame [simp]:
  "canonical issue (s\<lparr>datasets := ds\<rparr>) = canonical issue s"
  "canonical issue (s\<lparr>logged := l\<rparr>) = canonical issue s"
  by (simp_all add: canonical_def)

lemma get_dataset_twice:
  assumes st: "settled issue"
  shows "fst (get_dataset x issue t (snd (get_dataset x issue t s)))
           = fst (get_dataset x issue t s)
         \<and> datasets (snd (get_dataset x issue t (snd (get_dataset x issue t s))))
           = datasets (snd (get_dataset x issue t s))"
proof (cases "filter (\<lambda>d. snapshot_of issue d \<and> ds_before d = t) (purged issue (datasets s))")
  case (Cons d ds')
  then show ?thesis
    by (simp add: get_dataset_unfold Let_def purged_idem)
next
  case Nil
  show ?thesis
  proof (cases "canonical issue s")
    case None
    with Nil show ?thesis
      by (simp add: get_dataset_unfold Let_def purged_idem)
  next
    case (Some ri)
    show ?thesis
    proof (cases "ri_is_pull ri")
      case True
      with Nil Some show ?thesis
        by (simp add: get_dataset_unfold Let_def purged_idem)
    next
      case False
      show ?thesis
      proof (cases "build_dataset x s issue t ri")
        case (Inl e)
        with Nil Some False show ?thesis
          by (simp add: get_dataset_unfold Let_def purged_idem)
      next
        case (Inr data)
        from build_dataset_key [OF Inr]
        have k: "snapshot_of issue data" "ds_before data = t"
          "ds_resolver_commit_num data
             = (case issue of ResolvedIssue r \<Rightarrow> rs_resolver_commit_num r | OpenIssue _ \<Rightarrow> - 1)"
          by simp_all
        have p: "purged issue (purged issue (datasets s) @ [data])
                   = purged issue (datasets s) @ [data]"
          using purged_snoc [OF st k(3)] by (simp add: purged_idem)
        from Nil Some False Inr k p show ?thesis
          by (simp add: get_dataset_unfold Let_def)
      qed
    qed
  qed
qed

lemma ex_eval_5:
  "get_dataset ex_ext (ResolvedIssue ex_resolved) 5 ex_state
     = (Inr (Some ex_built),
        ex_state\<lparr>datasets := [ex_built],
          logged := [(INFO, Build_start ''o'' ''r'' 1 5), (INFO, Build_done ''o'' ''r'' 1 5)]\<rparr>)"
  by code_simp

text \<open>
  C2, as the claim states it, fails: for a resolved issue the deletion of stale snapshots
  comes before the existence check. The store holds one snapshot for (o, r, 1, cutoff
  5), computed while the issue was open (\<open>resolver_commit_num = -1\<close>); the builder,
  called with the resolved issue and cutoff 5, deletes it, builds a new record with
  \<open>resolver_commit_num = 2\<close> and writes it.
\<close>

theorem snapshot_memoized_counterexample:
  "datasets ex_state = [ex_snapshot 5 (- 1)]
   \<and> ds_owner (ex_snapshot 5 (- 1)) = rs_owner ex_resolved
   \<and> ds_name (ex_snapshot 5 (- 1)) = rs_name ex_resolved
   \<and> ds_number (ex_snapshot 5 (- 1)) = rs_number ex_resolved
   \<and> ds_before (ex_snapshot 5 (- 1)) = 5
   \<and> fst (get_dataset ex_ext (ResolvedIssue ex_resolved) 5 ex_state)
       \<noteq> Inr (Some (ex_snapshot 5 (- 1)))
   \<and> datasets (snd (get_dataset ex_ext (ResolvedIssue ex_resolved) 5 ex_state))
       \<noteq> datasets ex_state
   \<and> fst (get_dataset ex_ext (ResolvedIssue ex_resolved) 5 ex_state) = Inr (Some ex_built)
   \<and> datasets (snd (get_dataset ex_ext (ResolvedIssue ex_resolved) 5 ex_state)) = [ex_built]
   \<and> ds_resolver_commit_num ex_built = 2"
  by code_simp

text \<open>
  C2, amended (idempotence): if, after the deletion of stale snapshots that precedes the
  check for a resolved issue, a snapshot exists for (owner, name, number, cutoff), the
  builder returns the first such record unchanged and adds no record; for an open issue
  the Dataset collection is then unchanged, for a resolved issue it changes only by the
  deletion of stale records. For an issue that is open, or resolved with a
  \<open>resolver_commit_num\<close> other than -1, a second call with the same issue and
  cutoff, right after the first, has the outcome of the first (the identical record,
  \<open>None\<close>, or the same exception) and leaves the Dataset collection as the first
  call left it.
\<close>

theorem snapshot_memoized:
  "(filter (\<lambda>d. snapshot_of issue d \<and> ds_before d = t) (purged issue (datasets s)) = d # ds \<longrightarrow>
      get_dataset x issue t s
        = (Inr (Some d),
           s\<lparr>datasets := purged issue (datasets s),
             logged := logged s @
               [(INFO, Already_in_dataset (issue_owner issue) (issue_name issue)
                         (issue_number issue) t)]\<rparr>))
   \<and> (filter (\<lambda>d. snapshot_of (OpenIssue i) d \<and> ds_before d = t) (datasets s) = d # ds \<longrightarrow>
        fst (get_dataset x (OpenIssue i) t s) = Inr (Some d)
        \<and> datasets (snd (get_dataset x (OpenIssue i) t s)) = datasets s)
   \<and> (settled issue \<longrightarrow>
        fst (get_dataset x issue t (snd (get_dataset x issue t s)))
          = fst (get_dataset x issue t s)
        \<and> datasets (snd (get_dataset x issue t (snd (get_dataset x issue t s))))
          = datasets (snd (get_dataset x issue t s)))"
proof -
  have a: "filter (\<lambda>d. snapshot_of issue d \<and> ds_before d = t) (purged issue (datasets s)) = d # ds \<longrightarrow>
      get_dataset x issue t s
        = (Inr (Some d),
           s\<lparr>datasets := purged issue (datasets s),
             logged := logged s @
               [(INFO, Already_in_dataset (issue_owner issue) (issue_name issue)
                         (issue_number issue) t)]\<rparr>)"
    by (simp add: get_dataset_unfold Let_def)
  have b: "filter (\<lambda>d. snapshot_of (OpenIssue i) d \<and> ds_before d = t) (datasets s) = d # ds \<longrightarrow>
        fst (get_dataset x (OpenIssue i) t s) = Inr (Some d)
        \<and> datasets (snd (get_dataset x (OpenIssue i) t s)) = datasets s"
    by (simp add: get_dataset_unfold Let_def purged_Open)
  from a b get_dataset_twice [of issue x t s] show ?thesis by blast
qed

text \<open>
  The hypotheses of C2 at example stores: a resolved issue with a definitive snapshot at
  the cutoff, an open issue with its snapshot at the cutoff, and the call that builds a
  record, repeated.
\<close>

theorem snapshot_memoized_witness:
  "filter (\<lambda>d. snapshot_of (ResolvedIssue ex_resolved) d \<and> ds_before d = 9)
       (purged (ResolvedIssue ex_resolved) (datasets ex_state2)) = [ex_snapshot 9 2]
   \<and> get_dataset ex_ext (ResolvedIssue ex_resolved) 9 ex_state2
        = (Inr (Some (ex_snapshot 9 2)),
           ex_state2\<lparr>datasets := [ex_snapshot 9 2],
             logged := [(INFO, Already_in_dataset ''o'' ''r'' 1 9)]\<rparr>)
   \<and> filter (\<lambda>d. snapshot_of (OpenIssue ex_open) d \<and> ds_before d = 5) (datasets ex_state_open)
        = [ex_snapshot 5 (- 1)]
   \<and> fst (get_dataset ex_ext (OpenIssue ex_open) 5 ex_state_open) = Inr (Some (ex_snapshot 5 (- 1)))
   \<and> datasets (snd (get_dataset ex_ext (OpenIssue ex_open) 5 ex_state_open))
        = datasets ex_state_open
   \<and> settled (ResolvedIssue ex_resolved)
   \<and> fst (get_dataset ex_ext (ResolvedIssue ex_resolved) 5
             (snd (get_dataset ex_ext (ResolvedIssue ex_resolved) 5 ex_state)))
        = fst (get_dataset ex_ext (ResolvedIssue ex_resolved) 5 ex_state)
   \<and> datasets (snd (get_dataset ex_ext (ResolvedIssue ex_resolved) 5
             (snd (get_dataset ex_ext (ResolvedIssue ex_resolved) 5 ex_state))))
        = datasets (snd (get_dataset ex_ext (ResolvedIssue ex_resolved) 5 ex_state))
   \<and> fst (get_dataset ex_ext (ResolvedIssue ex_resolved) 5 ex_state) = Inr (Some ex_built)"
proof -
  have h1: "filter (\<lambda>d. snapshot_of (ResolvedIssue ex_resolved) d \<and> ds_before d = 9)
       (purged (ResolvedIssue ex_resolved) (datasets ex_state2)) = [ex_snapshot 9 2]"
    by (simp add: ex_state2_def ex_state_def empty_state_def purged_def snapshot_of_def
        ex_snapshot_def ex_resolved_def)
  have h2: "filter (\<lambda>d. snapshot_of (OpenIssue ex_open) d \<and> ds_before d = 5) (datasets ex_state_open)
        = [ex_snapshot 5 (- 1)]"
    by (simp add: ex_state_open_def ex_state_def empty_state_def snapshot_of_def
        ex_snapshot_def ex_open_def)
  have h3: "settled (ResolvedIssue ex_resolved)"
    by (simp add: settled_def ex_resolved_def)
  have p: "purged (ResolvedIssue ex_resolved) (datasets ex_state2) = [ex_snapshot 9 2]"
    by (simp add: ex_state2_def ex_state_def empty_state_def purged_def snapshot_of_def
        ex_snapshot_def ex_resolved_def)
  have l: "logged ex_state2 = []" "issue_owner (ResolvedIssue ex_resolved) = ''o''"
    "issue_name (ResolvedIssue ex_resolved) = ''r''"
    "issue_number (ResolvedIssue ex_resolved) = 1"
    by (simp_all add: ex_state2_def ex_state_def empty_state_def ex_resolved_def)
  have e: "fst (get_dataset ex_ext (ResolvedIssue ex_resolved) 5 ex_state) = Inr (Some ex_built)"
    by (simp add: ex_eval_5)
  from h1 h2 h3 p l e
    snapshot_memoized [where issue = "ResolvedIssue ex_resolved" and t = 9 and s = ex_state2
      and d = "ex_snapshot 9 2" and ds = "[]" and x = ex_ext and i = ex_open]
    snapshot_memoized [where issue = "ResolvedIssue ex_resolved" and t = 5 and s = ex_state
      and x = ex_ext]
    snapshot_memoized [where i = ex_open and t = 5 and s = ex_state_open
      and d = "ex_snapshot 5 (- 1)" and ds = "[]" and x = ex_ext]
  show ?thesis by simp
qed

text \<open>
  C3 (stale-snapshot supersession): for a resolved issue the builder first deletes every
  snapshot of the same (owner, name, number) that carries \<open>resolver_commit_num = -1\<close>;
  the existence check and the build see the store after the deletion (the call does what
  it does on the purged store), the Dataset collection it leaves is the purged one, with
  at most the new record appended, and a record it returns for an issue resolved with a
  count other than -1 never carries the sentinel. For an open issue nothing is deleted:
  the collection is left as it was, with at most the new record appended.
\<close>

theorem stale_snapshots_superseded:
  "purged (ResolvedIssue r) (datasets s)
     = filter (\<lambda>d. \<not> (ds_owner d = rs_owner r \<and> ds_name d = rs_name r
                        \<and> ds_number d = rs_number r \<and> ds_resolver_commit_num d = - 1))
         (datasets s)
   \<and> get_dataset x (ResolvedIssue r) t s
       = get_dataset x (ResolvedIssue r) t
           (s\<lparr>datasets := purged (ResolvedIssue r) (datasets s)\<rparr>)
   \<and> (datasets (snd (get_dataset x (ResolvedIssue r) t s)) = purged (ResolvedIssue r) (datasets s)
       \<or> (\<exists>data. fst (get_dataset x (ResolvedIssue r) t s) = Inr (Some data)
             \<and> datasets (snd (get_dataset x (ResolvedIssue r) t s))
                 = purged (ResolvedIssue r) (datasets s) @ [data]
             \<and> ds_before data = t
             \<and> ds_resolver_commit_num data = rs_resolver_commit_num r))
   \<and> (fst (get_dataset x (ResolvedIssue r) t s) = Inr (Some d)
        \<and> rs_resolver_commit_num r \<noteq> - 1 \<longrightarrow> ds_resolver_commit_num d \<noteq> - 1)
   \<and> (datasets (snd (get_dataset x (OpenIssue i) t s)) = datasets s
       \<or> (\<exists>data. fst (get_dataset x (OpenIssue i) t s) = Inr (Some data)
             \<and> datasets (snd (get_dataset x (OpenIssue i) t s)) = datasets s @ [data]))"
proof -
  let ?P = "purged (ResolvedIssue r) (datasets s)"
  have a: "get_dataset x (ResolvedIssue r) t s
       = get_dataset x (ResolvedIssue r) t (s\<lparr>datasets := ?P\<rparr>)"
    by (simp add: get_dataset_unfold Let_def purged_idem
        cong: list.case_cong option.case_cong sum.case_cong if_cong)
  have b: "datasets (snd (get_dataset x (ResolvedIssue r) t s)) = ?P
       \<or> (\<exists>data. fst (get_dataset x (ResolvedIssue r) t s) = Inr (Some data)
             \<and> datasets (snd (get_dataset x (ResolvedIssue r) t s)) = ?P @ [data]
             \<and> ds_before data = t
             \<and> ds_resolver_commit_num data = rs_resolver_commit_num r)"
    using get_dataset_store [of x "ResolvedIssue r" t s] by auto
  have c: "fst (get_dataset x (ResolvedIssue r) t s) = Inr (Some d)
        \<and> rs_resolver_commit_num r \<noteq> - 1 \<longrightarrow> ds_resolver_commit_num d \<noteq> - 1"
  proof (intro impI, elim conjE)
    assume f: "fst (get_dataset x (ResolvedIssue r) t s) = Inr (Some d)"
      and n: "rs_resolver_commit_num r \<noteq> - 1"
    show "ds_resolver_commit_num d \<noteq> - 1"
    proof (cases "filter (\<lambda>d. snapshot_of (ResolvedIssue r) d \<and> ds_before d = t) ?P")
      case Nil
      with f n show ?thesis
        by (auto simp: get_dataset_unfold Let_def dest: build_dataset_key
            split: option.splits sum.splits if_splits)
    next
      case (Cons e es)
      then have "e \<in> set (filter (\<lambda>d. snapshot_of (ResolvedIssue r) d \<and> ds_before d = t) ?P)"
        by simp
      then have "e \<in> set ?P" and "snapshot_of (ResolvedIssue r) e" by simp_all
      then have "ds_resolver_commit_num e \<noteq> - 1"
        by (auto simp: purged_def)
      with Cons f show ?thesis
        by (simp add: get_dataset_unfold Let_def)
    qed
  qed
  have d: "datasets (snd (get_dataset x (OpenIssue i) t s)) = datasets s
       \<or> (\<exists>data. fst (get_dataset x (OpenIssue i) t s) = Inr (Some data)
             \<and> datasets (snd (get_dataset x (OpenIssue i) t s)) = datasets s @ [data])"
    using get_dataset_store [of x "OpenIssue i" t s] by (auto simp: purged_Open)
  from a b c d purged_Resolved [of r "datasets s"] show ?thesis by blast
qed

text \<open>
  The hypothesis of C3 at a store with a stale and a definitive snapshot of the resolved
  issue: the stale one is deleted and the definitive one returned.
\<close>

theorem stale_snapshots_superseded_witness:
  "purged (ResolvedIssue ex_resolved) (datasets ex_state2) = [ex_snapshot 9 2]
   \<and> datasets ex_state2 = [ex_snapshot 5 (- 1), ex_snapshot 9 2]
   \<and> fst (get_dataset ex_ext (ResolvedIssue ex_resolved) 9 ex_state2)
       = Inr (Some (ex_snapshot 9 2))
   \<and> rs_resolver_commit_num ex_resolved \<noteq> - 1
   \<and> ds_resolver_commit_num (ex_snapshot 9 2) \<noteq> - 1
   \<and> datasets (snd (get_dataset ex_ext (ResolvedIssue ex_resolved) 9 ex_state2))
       = [ex_snapshot 9 2]
   \<and> datasets (snd (get_dataset ex_ext (ResolvedIssue ex_resolved) 5 ex_state)) = [ex_built]"
proof -
  have p: "purged (ResolvedIssue ex_resolved) (datasets ex_state2) = [ex_snapshot 9 2]"
    by (simp add: ex_state2_def ex_state_def empty_state_def purged_def snapshot_of_def
        ex_snapshot_def ex_resolved_def)
  have q: "datasets ex_state2 = [ex_snapshot 5 (- 1), ex_snapshot 9 2]"
    by (simp add: ex_state2_def)
  have e: "get_dataset ex_ext (ResolvedIssue ex_resolved) 9 ex_state2
        = (Inr (Some (ex_snapshot 9 2)),
           ex_state2\<lparr>datasets := [ex_snapshot 9 2],
             logged := [(INFO, Already_in_dataset ''o'' ''r'' 1 9)]\<rparr>)"
    by code_simp
  have n: "rs_resolver_commit_num ex_resolved \<noteq> - 1"
    by (simp add: ex_resolved_def)
  from p q e n ex_eval_5
    stale_snapshots_superseded [where r = ex_resolved and s = ex_state2 and t = 9
      and x = ex_ext and d = "ex_snapshot 9 2"]
  show ?thesis by simp
qed

lemma get_dataset_pull:
  assumes no: "filter (\<lambda>d. snapshot_of issue d \<and> ds_before d = t) (datasets s) = []"
    and can: "canonical issue s = Some ri"
    and pull: "ri_is_pull ri"
  shows "get_dataset x issue t s
           = (Inr None,
              s\<lparr>datasets := purged issue (datasets s),
                logged := logged s @
                  [(ERROR, Pull_request (issue_owner issue) (issue_name issue)
                             (issue_number issue))]\<rparr>)"
  using no_existing_purged [OF no] can pull
  by (simp add: get_dataset_unfold Let_def)

text \<open>
  C9 (precondition violation): when no snapshot exists for (owner, name, number, cutoff)
  and the canonical issue record is a pull request, the builder logs an error, returns
  \<open>None\<close> without raising, and writes no record: the Dataset collection it leaves
  holds no record that was not there (for an open issue it is unchanged). The caller
  goes on: the loop over the open issues continues with the remaining issues, and the
  loop over the resolved issues makes its second call, which ends the same way, and
  continues with the remaining issues.
\<close>

theorem pull_request_no_snapshot:
  assumes no: "filter (\<lambda>d. snapshot_of issue d \<and> ds_before d = t) (datasets s) = []"
    and can: "canonical issue s = Some ri"
    and pull: "ri_is_pull ri"
  shows
    "get_dataset x issue t s
       = (Inr None,
          s\<lparr>datasets := purged issue (datasets s),
            logged := logged s @
              [(ERROR, Pull_request (issue_owner issue) (issue_name issue)
                         (issue_number issue))]\<rparr>)
     \<and> set (datasets (snd (get_dataset x issue t s))) \<subseteq> set (datasets s)
     \<and> (issue = OpenIssue i \<longrightarrow> datasets (snd (get_dataset x issue t s)) = datasets s)
     \<and> (issue = OpenIssue i \<and> t = oi_updated_at i
          \<and> filter (\<lambda>d. ds_name d = oi_name i \<and> ds_owner d = oi_owner i
                          \<and> ds_number d = oi_number i) (datasets s) = [] \<longrightarrow>
          open_loop x (i # rest) s
            = open_loop x rest
                (s\<lparr>logged := logged s @
                    [(ERROR, Pull_request (oi_owner i) (oi_name i) (oi_number i))]\<rparr>))
     \<and> (issue = ResolvedIssue r \<and> t = rs_created_at r
          \<and> filter (\<lambda>d. snapshot_of issue d \<and> ds_before d = rs_resolved_at r) (datasets s) = [] \<longrightarrow>
          resolved_loop x (r # rest') s
            = resolved_loop x rest'
                (s\<lparr>datasets := purged issue (datasets s),
                  logged := logged s @
                    [(ERROR, Pull_request (rs_owner r) (rs_name r) (rs_number r)),
                     (ERROR, Pull_request (rs_owner r) (rs_name r) (rs_number r))]\<rparr>))"
proof -
  note g = get_dataset_pull [OF no can pull, of x]
  have b: "set (datasets (snd (get_dataset x issue t s))) \<subseteq> set (datasets s)"
    by (simp add: g purged_subset)
  have c: "issue = OpenIssue i \<longrightarrow> datasets (snd (get_dataset x issue t s)) = datasets s"
    using g by (auto simp: purged_Open)
  have d: "issue = OpenIssue i \<and> t = oi_updated_at i
          \<and> filter (\<lambda>d. ds_name d = oi_name i \<and> ds_owner d = oi_owner i
                          \<and> ds_number d = oi_number i) (datasets s) = [] \<longrightarrow>
          open_loop x (i # rest) s
            = open_loop x rest
                (s\<lparr>logged := logged s @
                    [(ERROR, Pull_request (oi_owner i) (oi_name i) (oi_number i))]\<rparr>)"
  proof (intro impI, elim conjE)
    assume i: "issue = OpenIssue i" and t: "t = oi_updated_at i"
      and e: "filter (\<lambda>d. ds_name d = oi_name i \<and> ds_owner d = oi_owner i
                          \<and> ds_number d = oi_number i) (datasets s) = []"
    from g i t have "get_dataset x (OpenIssue i) (oi_updated_at i) s
        = (Inr None, s\<lparr>logged := logged s @
                    [(ERROR, Pull_request (oi_owner i) (oi_name i) (oi_number i))]\<rparr>)"
      by (simp add: purged_Open)
    with e show "open_loop x (i # rest) s
            = open_loop x rest
                (s\<lparr>logged := logged s @
                    [(ERROR, Pull_request (oi_owner i) (oi_name i) (oi_number i))]\<rparr>)"
      by (simp add: Let_def)
  qed
  have e: "issue = ResolvedIssue r \<and> t = rs_created_at r
          \<and> filter (\<lambda>d. snapshot_of issue d \<and> ds_before d = rs_resolved_at r) (datasets s) = [] \<longrightarrow>
          resolved_loop x (r # rest') s
            = resolved_loop x rest'
                (s\<lparr>datasets := purged issue (datasets s),
                  logged := logged s @
                    [(ERROR, Pull_request (rs_owner r) (rs_name r) (rs_number r)),
                     (ERROR, Pull_request (rs_owner r) (rs_name r) (rs_number r))]\<rparr>)"
  proof (intro impI, elim conjE)
    assume i: "issue = ResolvedIssue r" and t: "t = rs_created_at r"
      and n2: "filter (\<lambda>d. snapshot_of issue d \<and> ds_before d = rs_resolved_at r) (datasets s) = []"
    let ?s1 = "s\<lparr>datasets := purged issue (datasets s),
                logged := logged s @
                  [(ERROR, Pull_request (rs_owner r) (rs_name r) (rs_number r))]\<rparr>"
    from g i t have g1: "get_dataset x (ResolvedIssue r) (rs_created_at r) s = (Inr None, ?s1)"
      by simp
    have n2': "filter (\<lambda>d. snapshot_of issue d \<and> ds_before d = rs_resolved_at r) (datasets ?s1) = []"
      using no_existing_purged [OF n2] by simp
    have can': "canonical issue ?s1 = Some ri"
      using can by simp
    from get_dataset_pull [OF n2' can' pull, of x] i
    have g2: "get_dataset x (ResolvedIssue r) (rs_resolved_at r) ?s1
        = (Inr None,
           s\<lparr>datasets := purged issue (datasets s),
             logged := logged s @
               [(ERROR, Pull_request (rs_owner r) (rs_name r) (rs_number r)),
                (ERROR, Pull_request (rs_owner r) (rs_name r) (rs_number r))]\<rparr>)"
      by (simp add: purged_idem)
    show "resolved_loop x (r # rest') s
            = resolved_loop x rest'
                (s\<lparr>datasets := purged issue (datasets s),
                  logged := logged s @
                    [(ERROR, Pull_request (rs_owner r) (rs_name r) (rs_number r)),
                     (ERROR, Pull_request (rs_owner r) (rs_name r) (rs_number r))]\<rparr>)"
      by (simp add: g1 g2)
  qed
  from g b c d e show ?thesis by blast
qed

text \<open>
  The hypotheses of C9 at a store whose only issue record is a pull request.
\<close>

theorem pull_request_no_snapshot_witness:
  "filter (\<lambda>d. snapshot_of (OpenIssue ex_open_pull) d \<and> ds_before d = 4) (datasets ex_state_pull) = []
   \<and> canonical (OpenIssue ex_open_pull) ex_state_pull = Some ex_pull_issue
   \<and> ri_is_pull ex_pull_issue
   \<and> get_dataset ex_ext (OpenIssue ex_open_pull) 4 ex_state_pull
       = (Inr None,
          ex_state_pull\<lparr>datasets := purged (OpenIssue ex_open_pull) (datasets ex_state_pull),
            logged := logged ex_state_pull @
              [(ERROR, Pull_request (issue_owner (OpenIssue ex_open_pull))
                         (issue_name (OpenIssue ex_open_pull))
                         (issue_number (OpenIssue ex_open_pull)))]\<rparr>)
   \<and> datasets (snd (get_dataset ex_ext (OpenIssue ex_open_pull) 4 ex_state_pull))
       = datasets ex_state_pull
   \<and> open_loop ex_ext (ex_open_pull # []) ex_state_pull
       = open_loop ex_ext []
           (ex_state_pull\<lparr>logged := logged ex_state_pull @
              [(ERROR, Pull_request (oi_owner ex_open_pull) (oi_name ex_open_pull)
                         (oi_number ex_open_pull))]\<rparr>)
   \<and> canonical (ResolvedIssue ex_resolved_pull) ex_state_pull = Some ex_pull_issue
   \<and> resolved_loop ex_ext (ex_resolved_pull # []) ex_state_pull
       = resolved_loop ex_ext []
           (ex_state_pull\<lparr>datasets := purged (ResolvedIssue ex_resolved_pull) (datasets ex_state_pull),
              logged := logged ex_state_pull @
                [(ERROR, Pull_request (rs_owner ex_resolved_pull) (rs_name ex_resolved_pull)
                           (rs_number ex_resolved_pull)),
                 (ERROR, Pull_request (rs_owner ex_resolved_pull) (rs_name ex_resolved_pull)
                           (rs_number ex_resolved_pull))]\<rparr>)"
proof -
  have d: "datasets ex_state_pull = []"
    by (simp add: ex_state_pull_def empty_state_def)
  have h1: "filter (\<lambda>d. snapshot_of (OpenIssue ex_open_pull) d \<and> ds_before d = 4)
              (datasets ex_state_pull) = []"
    by (simp add: d)
  have h2: "canonical (OpenIssue ex_open_pull) ex_state_pull = Some ex_pull_issue"
    by (simp add: canonical_def ex_state_pull_def ex_pull_issue_def ex_open_pull_def)
  have h3: "ri_is_pull ex_pull_issue"
    by (simp add: ex_pull_issue_def)
  have h4: "filter (\<lambda>d. snapshot_of (ResolvedIssue ex_resolved_pull) d
                       \<and> ds_before d = rs_created_at ex_resolved_pull)
              (datasets ex_state_pull) = []"
    by (simp add: d)
  have h5: "canonical (ResolvedIssue ex_resolved_pull) ex_state_pull = Some ex_pull_issue"
    by (simp add: canonical_def ex_state_pull_def ex_pull_issue_def ex_resolved_pull_def)
  have h6: "(4::int) = oi_updated_at ex_open_pull"
    by (simp add: ex_open_pull_def)
  have h7: "filter (\<lambda>d. ds_name d = oi_name ex_open_pull \<and> ds_owner d = oi_owner ex_open_pull
                          \<and> ds_number d = oi_number ex_open_pull) (datasets ex_state_pull) = []"
    by (simp add: d)
  have h8: "filter (\<lambda>d. snapshot_of (ResolvedIssue ex_resolved_pull) d
                       \<and> ds_before d = rs_resolved_at ex_resolved_pull)
              (datasets ex_state_pull) = []"
    by (simp add: d)
  from pull_request_no_snapshot [OF h1 h2 h3, where x = ex_ext and i = ex_open_pull
      and rest = "[]"]
    pull_request_no_snapshot [OF h4 h5 h3, where x = ex_ext and r = ex_resolved_pull
      and rest' = "[]"]
    h1 h2 h3 h5 h6 h7 h8
  show ?thesis by blast
qed

section \<open>Claims about the orchestrator\<close>

lemma resolved_loop_calls:
  "resolved_loop x rs s
     = run_builds x
         (concat (map (\<lambda>i. [(ResolvedIssue i, rs_created_at i),
                             (ResolvedIssue i, rs_resolved_at i)]) rs)) s"
  by (induction rs arbitrary: s) (simp_all split: prod.splits sum.splits)

text \<open>
  C4: the orchestrator's loop over the resolved issues is the sequence of builder calls
  that has, for every resolved issue in order, exactly two calls: one at the issue's
  creation time, then one at its resolution time; \<open>get_dataset_with_issues\<close> runs
  this sequence and then the loop over the open issues. (An exception of a call ends the
  run there, as it does in the source.)
\<close>

theorem resolved_issue_two_cutoffs:
  "resolved_loop x rs s
     = run_builds x
         (concat (map (\<lambda>i. [(ResolvedIssue i, rs_created_at i),
                             (ResolvedIssue i, rs_resolved_at i)]) rs)) s
   \<and> get_dataset_with_issues x rs os s
     = (case run_builds x
               (concat (map (\<lambda>i. [(ResolvedIssue i, rs_created_at i),
                                   (ResolvedIssue i, rs_resolved_at i)]) rs)) s of
          (Inl e, s1) \<Rightarrow> (Inl e, s1)
        | (Inr u, s1) \<Rightarrow> open_loop x os s1)
   \<and> run_builds x [(ResolvedIssue i, rs_created_at i), (ResolvedIssue i, rs_resolved_at i)] s
     = (case get_dataset x (ResolvedIssue i) (rs_created_at i) s of
          (Inl e, s1) \<Rightarrow> (Inl e, s1)
        | (Inr d1, s1) \<Rightarrow>
            (case get_dataset x (ResolvedIssue i) (rs_resolved_at i) s1 of
               (Inl e, s2) \<Rightarrow> (Inl e, s2)
             | (Inr d2, s2) \<Rightarrow> (Inr (), s2)))"
  by (simp add: resolved_loop_calls get_dataset_with_issues_def split: prod.splits sum.splits)

text \<open>
  C4 at the example store: one resolved issue, created at 1 and resolved at 9, gets the
  calls at 1 and at 9, which leave the snapshots with these two cutoffs.
\<close>

theorem resolved_issue_two_cutoffs_witness:
  "resolved_loop ex_ext [ex_resolved] ex_state
     = run_builds ex_ext [(ResolvedIssue ex_resolved, 1), (ResolvedIssue ex_resolved, 9)] ex_state
   \<and> map ds_before (datasets (snd (resolved_loop ex_ext [ex_resolved] ex_state))) = [1, 9]
   \<and> map ds_resolver_commit_num (datasets (snd (resolved_loop ex_ext [ex_resolved] ex_state)))
       = [2, 2]"
proof -
  have c: "rs_created_at ex_resolved = 1" "rs_resolved_at ex_resolved = 9"
    by (simp_all add: ex_resolved_def)
  have e: "map ds_before (datasets (snd (resolved_loop ex_ext [ex_resolved] ex_state))) = [1, 9]
     \<and> map ds_resolver_commit_num (datasets (snd (resolved_loop ex_ext [ex_resolved] ex_state)))
       = [2, 2]"
    by code_simp
  from c e resolved_issue_two_cutoffs [where x = ex_ext and rs = "[ex_resolved]" and s = ex_state]
  show ?thesis by simp
qed

lemma get_dataset_build_logs:
  "get_dataset x issue t s = (a, s1) \<Longrightarrow> build_logs s1 = build_logs s"
  using get_dataset_frame [of x issue t s] by simp

lemma resolved_loop_build_logs: "build_logs (snd (resolved_loop x rs s)) = build_logs s"
proof (induction rs arbitrary: s)
  case Nil
  show ?case by simp
next
  case (Cons r rs)
  obtain a s1 where g1: "get_dataset x (ResolvedIssue r) (rs_created_at r) s = (a, s1)"
    by (cases "get_dataset x (ResolvedIssue r) (rs_created_at r) s")
  obtain b s2 where g2: "get_dataset x (ResolvedIssue r) (rs_resolved_at r) s1 = (b, s2)"
    by (cases "get_dataset x (ResolvedIssue r) (rs_resolved_at r) s1")
  from get_dataset_build_logs [OF g1] get_dataset_build_logs [OF g2] Cons.IH [of s2]
  show ?case
    by (simp add: g1 g2 split: sum.splits)
qed

lemma open_loop_build_logs: "build_logs (snd (open_loop x os s)) = build_logs s"
proof (induction os arbitrary: s)
  case Nil
  show ?case by simp
next
  case (Cons i os)
  obtain a s1 where g1: "get_dataset x (OpenIssue i) (oi_updated_at i) s = (a, s1)"
    by (cases "get_dataset x (OpenIssue i) (oi_updated_at i) s")
  from get_dataset_build_logs [OF g1] Cons.IH [of s1]
    Cons.IH [of "s\<lparr>logged := logged s @
                    [(INFO, No_need_to_update (oi_owner i) (oi_name i) (oi_number i))]\<rparr>"]
  show ?case
    by (simp add: g1 Let_def split: sum.splits list.splits)
qed

lemma with_issues_build_logs:
  "build_logs (snd (get_dataset_with_issues x rs os s)) = build_logs s"
proof -
  obtain a s1 where r: "resolved_loop x rs s = (a, s1)"
    by (cases "resolved_loop x rs s")
  from resolved_loop_build_logs [of x rs s] r have "build_logs s1 = build_logs s" by simp
  with open_loop_build_logs [of x os s1] r show ?thesis
    by (simp add: get_dataset_with_issues_def split: sum.splits)
qed

lemma log_exists_snoc_opened:
  "log_exists owner name (s\<lparr>build_logs := build_logs s @ [opened_log owner name pid gl nb]\<rparr>)"
  by (simp add: log_exists_def opened_log_def)

lemma log_exists_snoc_closed:
  "log_exists owner name (s\<lparr>build_logs := ls @ [closed_log l n m ne]\<rparr>)
     = list_ex (\<lambda>l. bl_owner l = owner \<and> bl_name l = name \<and> bl_update_end l = None) ls"
  by (simp add: log_exists_def closed_log_def)

lemma for_repo_unfold:
  "\<not> log_exists owner name s \<Longrightarrow>
   get_dataset_for_repo x pid nb ne owner name since gl s =
     (let l = opened_log owner name pid gl nb;
          rs = filter (\<lambda>r. (rs_owner r = owner \<and> rs_name r = name) \<and> rs_resolved_at r \<ge> since)
                 (resolved_issues s);
          os = filter (\<lambda>i. (oi_owner i = owner \<and> oi_name i = name) \<and> oi_updated_at i \<ge> since)
                 (open_issues s)
      in (case get_dataset_with_issues x rs os (s\<lparr>build_logs := build_logs s @ [l]\<rparr>) of
            (Inl e, s2) \<Rightarrow> (Inl e, s2)
          | (Inr u, s2) \<Rightarrow>
              (Inr (),
               s2\<lparr>build_logs := build_logs s @ [closed_log l (length os) (length rs) ne]\<rparr>)))"
proof -
  assume n: "\<not> log_exists owner name s"
  let ?l = "opened_log owner name pid gl nb"
  let ?rs = "filter (\<lambda>r. (rs_owner r = owner \<and> rs_name r = name) \<and> rs_resolved_at r \<ge> since)
                 (resolved_issues s)"
  let ?os = "filter (\<lambda>i. (oi_owner i = owner \<and> oi_name i = name) \<and> oi_updated_at i \<ge> since)
                 (open_issues s)"
  obtain a s2 where w: "get_dataset_with_issues x ?rs ?os (s\<lparr>build_logs := build_logs s @ [?l]\<rparr>)
      = (a, s2)"
    by (cases "get_dataset_with_issues x ?rs ?os (s\<lparr>build_logs := build_logs s @ [?l]\<rparr>)")
  from with_issues_build_logs [of x ?rs ?os "s\<lparr>build_logs := build_logs s @ [?l]\<rparr>"] w
  have b: "build_logs s2 = build_logs s @ [?l]" by simp
  from n w b show ?thesis
    by (cases a)
       (simp_all add: get_dataset_for_repo_def Let_def opened_log_def closed_log_def)
qed

lemma all_unfold:
  "\<not> log_exists [] [] s \<Longrightarrow>
   get_dataset_all x pid nb ne since s =
     (let l = opened_log [] [] pid None nb;
          rs = (case since of
                  None \<Rightarrow> resolved_issues s
                | Some since' \<Rightarrow> filter (\<lambda>r. rs_resolved_at r \<ge> since') (resolved_issues s));
          os = (case since of
                  None \<Rightarrow> open_issues s
                | Some since' \<Rightarrow> filter (\<lambda>i. oi_updated_at i \<ge> since') (open_issues s))
      in (case get_dataset_with_issues x rs os (s\<lparr>build_logs := build_logs s @ [l]\<rparr>) of
            (Inl e, s2) \<Rightarrow> (Inl e, s2)
          | (Inr u, s2) \<Rightarrow>
              (Inr (),
               s2\<lparr>build_logs := build_logs s @ [closed_log l (length os) (length rs) ne]\<rparr>)))"
proof -
  assume n: "\<not> log_exists [] [] s"
  let ?l = "opened_log [] [] pid None nb"
  let ?rs = "(case since of
                  None \<Rightarrow> resolved_issues s
                | Some since' \<Rightarrow> filter (\<lambda>r. rs_resolved_at r \<ge> since') (resolved_issues s))"
  let ?os = "(case since of
                  None \<Rightarrow> open_issues s
                | Some since' \<Rightarrow> filter (\<lambda>i. oi_updated_at i \<ge> since') (open_issues s))"
  obtain a s2 where w: "get_dataset_with_issues x ?rs ?os (s\<lparr>build_logs := build_logs s @ [?l]\<rparr>)
      = (a, s2)"
    by (cases "get_dataset_with_issues x ?rs ?os (s\<lparr>build_logs := build_logs s @ [?l]\<rparr>)")
  from with_issues_build_logs [of x ?rs ?os "s\<lparr>build_logs := build_logs s @ [?l]\<rparr>"] w
  have b: "build_logs s2 = build_logs s @ [?l]" by simp
  from n w b show ?thesis
    by (cases a; cases since)
       (simp_all add: get_dataset_all_def Let_def opened_log_def closed_log_def)
qed

text \<open>
  C10 (lock contention): when an active BuildLog (end time unset) exists for the key,
  (owner, name) for the per-repository entry point and the empty pair for the global
  one, the entry point logs the fact and returns without raising; the BuildLog and
  Dataset collections are unchanged. Otherwise it appends a new, active BuildLog, so
  that the key is locked while the issues are processed, and has the outcome of the
  processing; when the processing returns, the record is closed at its place, with the
  end time and the counts of the selected open and resolved issues, and the key is free
  again; when the processing raises, the record stays active.
\<close>

theorem lock_contention_early_exit:
  "(log_exists owner name s \<longrightarrow>
      get_dataset_for_repo x pid nb ne owner name since gl s
        = (Inr (), s\<lparr>logged := logged s @ [(INFO, Already_being_updated owner name)]\<rparr>)
      \<and> build_logs (snd (get_dataset_for_repo x pid nb ne owner name since gl s)) = build_logs s
      \<and> datasets (snd (get_dataset_for_repo x pid nb ne owner name since gl s)) = datasets s)
   \<and> (log_exists [] [] s \<longrightarrow>
      get_dataset_all x pid nb ne since' s
        = (Inr (), s\<lparr>logged := logged s @ [(INFO, Global_update_running)]\<rparr>)
      \<and> build_logs (snd (get_dataset_all x pid nb ne since' s)) = build_logs s
      \<and> datasets (snd (get_dataset_all x pid nb ne since' s)) = datasets s)
   \<and> (\<not> log_exists owner name s \<longrightarrow>
      (let l = opened_log owner name pid gl nb;
           rs = filter (\<lambda>r. (rs_owner r = owner \<and> rs_name r = name) \<and> rs_resolved_at r \<ge> since)
                  (resolved_issues s);
           os = filter (\<lambda>i. (oi_owner i = owner \<and> oi_name i = name) \<and> oi_updated_at i \<ge> since)
                  (open_issues s);
           run = get_dataset_with_issues x rs os (s\<lparr>build_logs := build_logs s @ [l]\<rparr>);
           result = get_dataset_for_repo x pid nb ne owner name since gl s
       in log_exists owner name (s\<lparr>build_logs := build_logs s @ [l]\<rparr>)
          \<and> fst result = fst run
          \<and> datasets (snd result) = datasets (snd run)
          \<and> build_logs (snd result)
              = build_logs s @
                  [case fst run of
                     Inl e \<Rightarrow> l
                   | Inr u \<Rightarrow> closed_log l (length os) (length rs) ne]
          \<and> (case fst run of
                Inl e \<Rightarrow> log_exists owner name (snd result)
              | Inr u \<Rightarrow> \<not> log_exists owner name (snd result))))
   \<and> (\<not> log_exists [] [] s \<longrightarrow>
      (let l = opened_log [] [] pid None nb;
           rs = (case since' of
                   None \<Rightarrow> resolved_issues s
                 | Some t \<Rightarrow> filter (\<lambda>r. rs_resolved_at r \<ge> t) (resolved_issues s));
           os = (case since' of
                   None \<Rightarrow> open_issues s
                 | Some t \<Rightarrow> filter (\<lambda>i. oi_updated_at i \<ge> t) (open_issues s));
           run = get_dataset_with_issues x rs os (s\<lparr>build_logs := build_logs s @ [l]\<rparr>);
           result = get_dataset_all x pid nb ne since' s
       in log_exists [] [] (s\<lparr>build_logs := build_logs s @ [l]\<rparr>)
          \<and> fst result = fst run
          \<and> datasets (snd result) = datasets (snd run)
          \<and> build_logs (snd result)
              = build_logs s @
                  [case fst run of
                     Inl e \<Rightarrow> l
                   | Inr u \<Rightarrow> closed_log l (length os) (length rs) ne]
          \<and> (case fst run of
                Inl e \<Rightarrow> log_exists [] [] (snd result)
              | Inr u \<Rightarrow> \<not> log_exists [] [] (snd result))))"
proof -
  have a: "log_exists owner name s \<longrightarrow>
      get_dataset_for_repo x pid nb ne owner name since gl s
        = (Inr (), s\<lparr>logged := logged s @ [(INFO, Already_being_updated owner name)]\<rparr>)
      \<and> build_logs (snd (get_dataset_for_repo x pid nb ne owner name since gl s)) = build_logs s
      \<and> datasets (snd (get_dataset_for_repo x pid nb ne owner name since gl s)) = datasets s"
    by (simp add: get_dataset_for_repo_def)
  have b: "log_exists [] [] s \<longrightarrow>
      get_dataset_all x pid nb ne since' s
        = (Inr (), s\<lparr>logged := logged s @ [(INFO, Global_update_running)]\<rparr>)
      \<and> build_logs (snd (get_dataset_all x pid nb ne since' s)) = build_logs s
      \<and> datasets (snd (get_dataset_all x pid nb ne since' s)) = datasets s"
    by (simp add: get_dataset_all_def)
  have c: "\<not> log_exists owner name s \<longrightarrow>
      (let l = opened_log owner name pid gl nb;
           rs = filter (\<lambda>r. (rs_owner r = owner \<and> rs_name r = name) \<and> rs_resolved_at r \<ge> since)
                  (resolved_issues s);
           os = filter (\<lambda>i. (oi_owner i = owner \<and> oi_name i = name) \<and> oi_updated_at i \<ge> since)
                  (open_issues s);
           run = get_dataset_with_issues x rs os (s\<lparr>build_logs := build_logs s @ [l]\<rparr>);
           result = get_dataset_for_repo x pid nb ne owner name since gl s
       in log_exists owner name (s\<lparr>build_logs := build_logs s @ [l]\<rparr>)
          \<and> fst result = fst run
          \<and> datasets (snd result) = datasets (snd run)
          \<and> build_logs (snd result)
              = build_logs s @
                  [case fst run of
                     Inl e \<Rightarrow> l
                   | Inr u \<Rightarrow> closed_log l (length os) (length rs) ne]
          \<and> (case fst run of
                Inl e \<Rightarrow> log_exists owner name (snd result)
              | Inr u \<Rightarrow> \<not> log_exists owner name (snd result)))"
  proof
    assume n: "\<not> log_exists owner name s"
    let ?l = "opened_log owner name pid gl nb"
    let ?rs = "filter (\<lambda>r. (rs_owner r = owner \<and> rs_name r = name) \<and> rs_resolved_at r \<ge> since)
                  (resolved_issues s)"
    let ?os = "filter (\<lambda>i. (oi_owner i = owner \<and> oi_name i = name) \<and> oi_updated_at i \<ge> since)
                  (open_issues s)"
    let ?s1 = "s\<lparr>build_logs := build_logs s @ [?l]\<rparr>"
    obtain a s2 where w: "get_dataset_with_issues x ?rs ?os ?s1 = (a, s2)"
      by (cases "get_dataset_with_issues x ?rs ?os ?s1")
    from with_issues_build_logs [of x ?rs ?os ?s1] w
    have bl: "build_logs s2 = build_logs s @ [?l]" by simp
    from n have n': "\<not> list_ex (\<lambda>l. bl_owner l = owner \<and> bl_name l = name \<and> bl_update_end l = None)
        (build_logs s)"
      by (simp add: log_exists_def)
    have o: "log_exists owner name ?s1"
      by (rule log_exists_snoc_opened)
    have o2: "log_exists owner name s2"
      using bl by (simp add: log_exists_def opened_log_def)
    show "let l = opened_log owner name pid gl nb;
           rs = filter (\<lambda>r. (rs_owner r = owner \<and> rs_name r = name) \<and> rs_resolved_at r \<ge> since)
                  (resolved_issues s);
           os = filter (\<lambda>i. (oi_owner i = owner \<and> oi_name i = name) \<and> oi_updated_at i \<ge> since)
                  (open_issues s);
           run = get_dataset_with_issues x rs os (s\<lparr>build_logs := build_logs s @ [l]\<rparr>);
           result = get_dataset_for_repo x pid nb ne owner name since gl s
       in log_exists owner name (s\<lparr>build_logs := build_logs s @ [l]\<rparr>)
          \<and> fst result = fst run
          \<and> datasets (snd result) = datasets (snd run)
          \<and> build_logs (snd result)
              = build_logs s @
                  [case fst run of
                     Inl e \<Rightarrow> l
                   | Inr u \<Rightarrow> closed_log l (length os) (length rs) ne]
          \<and> (case fst run of
                Inl e \<Rightarrow> log_exists owner name (snd result)
              | Inr u \<Rightarrow> \<not> log_exists owner name (snd result))"
      using o o2 bl n' w
      by (cases a) (simp_all add: for_repo_unfold [OF n] Let_def log_exists_snoc_closed)
  qed
  have d: "\<not> log_exists [] [] s \<longrightarrow>
      (let l = opened_log [] [] pid None nb;
           rs = (case since' of
                   None \<Rightarrow> resolved_issues s
                 | Some t \<Rightarrow> filter (\<lambda>r. rs_resolved_at r \<ge> t) (resolved_issues s));
           os = (case since' of
                   None \<Rightarrow> open_issues s
                 | Some t \<Rightarrow> filter (\<lambda>i. oi_updated_at i \<ge> t) (open_issues s));
           run = get_dataset_with_issues x rs os (s\<lparr>build_logs := build_logs s @ [l]\<rparr>);
           result = get_dataset_all x pid nb ne since' s
       in log_exists [] [] (s\<lparr>build_logs := build_logs s @ [l]\<rparr>)
          \<and> fst result = fst run
          \<and> datasets (snd result) = datasets (snd run)
          \<and> build_logs (snd result)
              = build_logs s @
                  [case fst run of
                     Inl e \<Rightarrow> l
                   | Inr u \<Rightarrow> closed_log l (length os) (length rs) ne]
          \<and> (case fst run of
                Inl e \<Rightarrow> log_exists [] [] (snd result)
              | Inr u \<Rightarrow> \<not> log_exists [] [] (snd result)))"
  proof
    assume n: "\<not> log_exists [] [] s"
    let ?l = "opened_log [] [] pid None nb"
    let ?rs = "(case since' of
                   None \<Rightarrow> resolved_issues s
                 | Some t \<Rightarrow> filter (\<lambda>r. rs_resolved_at r \<ge> t) (resolved_issues s))"
    let ?os = "(case since' of
                   None \<Rightarrow> open_issues s
                 | Some t \<Rightarrow> filter (\<lambda>i. oi_updated_at i \<ge> t) (open_issues s))"
    let ?s1 = "s\<lparr>build_logs := build_logs s @ [?l]\<rparr>"
    obtain a s2 where w: "get_dataset_with_issues x ?rs ?os ?s1 = (a, s2)"
      by (cases "get_dataset_with_issues x ?rs ?os ?s1")
    from with_issues_build_logs [of x ?rs ?os ?s1] w
    have bl: "build_logs s2 = build_logs s @ [?l]" by simp
    from n have n': "\<not> list_ex (\<lambda>l. bl_owner l = [] \<and> bl_name l = [] \<and> bl_update_end l = None)
        (build_logs s)"
      by (simp add: log_exists_def)
    have o: "log_exists [] [] ?s1"
      by (rule log_exists_snoc_opened)
    have o2: "log_exists [] [] s2"
      using bl by (simp add: log_exists_def opened_log_def)
    show "let l = opened_log [] [] pid None nb;
           rs = (case since' of
                   None \<Rightarrow> resolved_issues s
                 | Some t \<Rightarrow> filter (\<lambda>r. rs_resolved_at r \<ge> t) (resolved_issues s));
           os = (case since' of
                   None \<Rightarrow> open_issues s
                 | Some t \<Rightarrow> filter (\<lambda>i. oi_updated_at i \<ge> t) (open_issues s));
           run = get_dataset_with_issues x rs os (s\<lparr>build_logs := build_logs s @ [l]\<rparr>);
           result = get_dataset_all x pid nb ne since' s
       in log_exists [] [] (s\<lparr>build_logs := build_logs s @ [l]\<rparr>)
          \<and> fst result = fst run
          \<and> datasets (snd result) = datasets (snd run)
          \<and> build_logs (snd result)
              = build_logs s @
                  [case fst run of
                     Inl e \<Rightarrow> l
                   | Inr u \<Rightarrow> closed_log l (length os) (length rs) ne]
          \<and> (case fst run of
                Inl e \<Rightarrow> log_exists [] [] (snd result)
              | Inr u \<Rightarrow> \<not> log_exists [] [] (snd result))"
      using o o2 bl n' w
      by (cases a) (simp_all add: all_unfold [OF n] Let_def log_exists_snoc_closed)
  qed
  from a b c d show ?thesis by blast
qed

text \<open>
  The hypotheses of C10: a store with an active BuildLog for (o, r) and one for the
  global key, and the example store, which has none.
\<close>

theorem lock_contention_early_exit_witness:
  "log_exists ''o'' ''r'' ex_locked \<and> log_exists [] [] ex_locked
   \<and> get_dataset_for_repo ex_ext 7 10 20 ''o'' ''r'' 0 None ex_locked
       = (Inr (), ex_locked\<lparr>logged := logged ex_locked @
                                 [(INFO, Already_being_updated ''o'' ''r'')]\<rparr>)
   \<and> get_dataset_all ex_ext 7 10 20 None ex_locked
       = (Inr (), ex_locked\<lparr>logged := logged ex_locked @ [(INFO, Global_update_running)]\<rparr>)
   \<and> \<not> log_exists ''o'' ''r'' ex_state \<and> \<not> log_exists [] [] ex_state
   \<and> fst (get_dataset_for_repo ex_ext 7 10 20 ''o'' ''r'' 0 None ex_state) = Inr ()
   \<and> build_logs (snd (get_dataset_for_repo ex_ext 7 10 20 ''o'' ''r'' 0 None ex_state))
       = build_logs ex_state @ [closed_log (opened_log ''o'' ''r'' 7 None 10) 0 1 20]
   \<and> \<not> log_exists ''o'' ''r'' (snd (get_dataset_for_repo ex_ext 7 10 20 ''o'' ''r'' 0 None ex_state))
   \<and> fst (get_dataset_all ex_ext 7 10 20 None ex_state) = Inr ()
   \<and> build_logs (snd (get_dataset_all ex_ext 7 10 20 None ex_state))
       = build_logs ex_state @ [closed_log (opened_log [] [] 7 None 10) 0 1 20]
   \<and> \<not> log_exists [] [] (snd (get_dataset_all ex_ext 7 10 20 None ex_state))"
proof -
  have h1: "log_exists ''o'' ''r'' ex_locked" "log_exists [] [] ex_locked"
    by (simp_all add: log_exists_def ex_locked_def ex_active_log_def ex_global_log_def
        opened_log_def)
  have h2: "\<not> log_exists ''o'' ''r'' ex_state" "\<not> log_exists [] [] ex_state"
    by (simp_all add: log_exists_def ex_state_def empty_state_def)
  have rs: "filter (\<lambda>r. (rs_owner r = ''o'' \<and> rs_name r = ''r'') \<and> rs_resolved_at r \<ge> 0)
              (resolved_issues ex_state) = [ex_resolved]"
    "filter (\<lambda>i. (oi_owner i = ''o'' \<and> oi_name i = ''r'') \<and> oi_updated_at i \<ge> 0)
              (open_issues ex_state) = []"
    "resolved_issues ex_state = [ex_resolved]" "open_issues ex_state = []"
    by (simp_all add: ex_state_def empty_state_def ex_resolved_def)
  have r1: "fst (get_dataset_with_issues ex_ext [ex_resolved] []
             (ex_state\<lparr>build_logs := build_logs ex_state @ [opened_log ''o'' ''r'' 7 None 10]\<rparr>))
           = Inr ()"
    by code_simp
  have r2: "fst (get_dataset_with_issues ex_ext [ex_resolved] []
             (ex_state\<lparr>build_logs := build_logs ex_state @ [opened_log [] [] 7 None 10]\<rparr>))
           = Inr ()"
    by code_simp
  from h1 h2 rs r1 r2
    lock_contention_early_exit [where owner = "''o''" and name = "''r''" and s = ex_locked
      and x = ex_ext and pid = 7 and nb = 10 and ne = 20 and since = 0 and gl = None
      and since' = None]
    lock_contention_early_exit [where owner = "''o''" and name = "''r''" and s = ex_state
      and x = ex_ext and pid = 7 and nb = 10 and ne = 20 and since = 0 and gl = None
      and since' = None]
  show ?thesis by (simp add: Let_def)
qed

end
